theory Spec2Isabelle
  imports Complex_Main
begin

section \<open>Data model of WeeklyPlanner.svelte\<close>

text \<open>
  The component keeps its tasks as JavaScript objects that are shared by reference:
  the handlers receive a \<^verbatim>\<open>task\<close> object and assign to its fields, and the same object is
  an element of one of the \<^verbatim>\<open>days[i].tasks\<close> arrays. The model therefore has an explicit
  object store: \<open>heap\<close> maps a reference to the task object it denotes, a day holds the
  list of references of its tasks, and \<open>nextRef\<close> is the next unused reference (an object
  literal in the source allocates there). Objects are never freed.

  Numbers are JavaScript doubles in the source; they are modelled by exact reals, so a
  product such as \<open>(deltaX - deleteThreshold) * 0.2\<close> is not rounded here.

  A JavaScript string is a sequence of UTF-16 code units. The texts that the code
  trims (a description, the text of an input) are modelled as such: \<open>jstring\<close> is the
  list of the code units, and \<open>js\<close> writes an ASCII literal as one. The ids and the
  names of the days, which the code only compares and passes on, are kept as \<open>string\<close>.
\<close>

type_synonym ref = nat

type_synonym jstring = "nat list"

definition js :: "string \<Rightarrow> jstring" where
  "js s = map of_char s"

record task =
  task_id :: string
  description :: jstring
  completed :: bool
  popoverOpen :: bool
  isEditing :: bool
  editingText :: jstring
  swipeX :: real
  isSwipeActive :: bool
  showMoveOptions :: bool

record day =
  name :: string
  tasks :: "ref list"
  newTaskDescription :: jstring
  dayBgColor :: string

text \<open>What \<^verbatim>\<open>fetch\<close> is called with (the request line and the JSON body).\<close>

datatype request =
    GET_tasks string
  | POST_tasks jstring string
  | DELETE_task string
  | PUT_completed string bool
  | PUT_day string string
  | PUT_text string jstring

text \<open>
  What comes back. \<open>FetchRejected\<close>: the promise of \<^verbatim>\<open>fetch\<close> rejects (network error) and
  control passes to the \<^verbatim>\<open>catch\<close> block. \<open>StatusNotOk\<close>: \<^verbatim>\<open>res.ok\<close> is false.
  \<open>StatusOk b\<close>: \<^verbatim>\<open>res.ok\<close> is true and \<open>b\<close> is what \<^verbatim>\<open>res.json()\<close> gives: \<open>BadJson\<close> when it
  rejects or yields \<^verbatim>\<open>null\<close> (the read of \<^verbatim>\<open>responseData.id\<close> throws), \<open>Json i\<close> for a value
  whose \<^verbatim>\<open>id\<close> property is \<open>i\<close>: an integer, a string, or nothing. Only \<^verbatim>\<open>addTask\<close> reads the
  body; the other operations look at \<^verbatim>\<open>res.ok\<close> alone.
\<close>

datatype json_id = IdNumber int | IdString string | IdMissing

datatype body = BadJson | Json json_id

datatype response = FetchRejected | StatusNotOk | StatusOk body

text \<open>
  A callback registered with \<^verbatim>\<open>setTimeout\<close>. The only one in the source is
  \<^verbatim>\<open>() => { void deleteTask(dayIndex, task.id) }\<close>; it closes over \<^verbatim>\<open>dayIndex\<close> and the task
  object. \<open>due\<close> is the time at which it may run.
\<close>

record timer =
  due :: nat
  cb_dayIndex :: nat
  cb_task :: ref

record touch =
  clientX :: real
  clientY :: real

text \<open>
  The state of the component: the object store, the \<^verbatim>\<open>days\<close> array, the hover table, the
  three module-level swipe variables, and what the platform holds for it: the clock (in
  milliseconds), the queue of timers, and the trace of the requests issued so far.
\<close>

record state =
  heap :: "ref \<Rightarrow> task"
  nextRef :: ref
  days :: "day list"
  taskHoverState :: "string \<rightharpoonup> bool"
  touchStartX :: real
  touchStartY :: real
  isSwiping :: bool
  now :: nat
  timers :: "timer list"
  requests :: "request list"

definition swipeThreshold :: real where
  "swipeThreshold = 80"

definition deleteThreshold :: real where
  "deleteThreshold = 120"

definition moveThreshold :: real where
  "moveThreshold = - 80"

definition warmGradient :: "string list" where
  "warmGradient =
     [''#FFF4E6'', ''#FFE8CC'', ''#FFD4A3'', ''#F4C2A1'',
      ''#E8B4A0'', ''#D4A29C'', ''#C8958F'', ''#B8857A'']"

definition new_day :: "string \<Rightarrow> nat \<Rightarrow> day" where
  "new_day n i = \<lparr>name = n, tasks = [], newTaskDescription = [], dayBgColor = warmGradient ! i\<rparr>"

definition blank_task :: task where
  "blank_task =
     \<lparr>task_id = '''', description = [], completed = False, popoverOpen = False,
      isEditing = False, editingText = [], swipeX = 0, isSwipeActive = False,
      showMoveOptions = False\<rparr>"

text \<open>The state when the script block has run: eight empty days, no object allocated.\<close>

definition init_state :: state where
  "init_state =
     \<lparr>heap = (\<lambda>_. blank_task), nextRef = 0,
      days = [new_day ''Monday'' 0, new_day ''Tuesday'' 1, new_day ''Wednesday'' 2,
              new_day ''Thursday'' 3, new_day ''Friday'' 4, new_day ''Saturday'' 5,
              new_day ''Sunday'' 6, new_day ''Someday'' 7],
      taskHoverState = Map.empty,
      touchStartX = 0, touchStartY = 0, isSwiping = False,
      now = 0, timers = [], requests = []\<rparr>"

text \<open>Assignment to the fields of one task object, and to one element of \<^verbatim>\<open>days\<close>.\<close>

definition upd_task :: "ref \<Rightarrow> (task \<Rightarrow> task) \<Rightarrow> state \<Rightarrow> state" where
  "upd_task r f st = st\<lparr>heap := (heap st)(r := f (heap st r))\<rparr>"

definition upd_day :: "nat \<Rightarrow> (day \<Rightarrow> day) \<Rightarrow> state \<Rightarrow> state" where
  "upd_day i f st = st\<lparr>days := (days st)[i := f (days st ! i)]\<rparr>"

text \<open>
  \<^verbatim>\<open>array.push({...})\<close>: the object literal is a new object, stored at \<open>nextRef\<close>; its
  reference is appended to the day's list.
\<close>

definition push_task :: "nat \<Rightarrow> task \<Rightarrow> state \<Rightarrow> state" where
  "push_task i t st =
     (let r = nextRef st
      in upd_day i (\<lambda>d. d\<lparr>tasks := tasks d @ [r]\<rparr>)
           (st\<lparr>heap := (heap st)(r := t), nextRef := Suc r\<rparr>))"

subsection \<open>Strings\<close>

text \<open>
  \<^verbatim>\<open>String.prototype.trim\<close> removes the leading and the trailing code units that are
  white space or line terminators of ECMAScript: tab (U+0009), line feed (U+000A),
  vertical tab (U+000B), form feed (U+000C), carriage return (U+000D), the byte order
  mark (U+FEFF), the line and paragraph separators (U+2028, U+2029), and the space
  separators of Unicode: U+0020, U+00A0, U+1680, U+2000 to U+200A, U+202F, U+205F and
  U+3000. All of them are single code units.
\<close>

definition is_space :: "nat \<Rightarrow> bool" where
  "is_space c =
     (c \<in> set [0x09, 0x0A, 0x0B, 0x0C, 0x0D, 0x20, 0xA0, 0x1680, 0x2028, 0x2029, 0x202F,
                0x205F, 0x3000, 0xFEFF]
      \<or> (0x2000 \<le> c \<and> c \<le> 0x200A))"

definition trim :: "jstring \<Rightarrow> jstring" where
  "trim s = rev (dropWhile is_space (rev (dropWhile is_space s)))"

text \<open>
  \<^verbatim>\<open>Number.prototype.toString\<close> on an integer: its decimal digits (as JavaScript prints
  every integer below \<open>10\<^sup>2\<^sup>1\<close> in magnitude).
\<close>

fun digits :: "nat \<Rightarrow> string" where
  "digits n = (if n < 10 then [''0123456789'' ! n] else digits (n div 10) @ [''0123456789'' ! (n mod 10)])"

definition int_toString :: "int \<Rightarrow> string" where
  "int_toString i = (if i < 0 then CHR ''-'' # digits (nat (- i)) else digits (nat i))"

text \<open>
  \<^verbatim>\<open>responseData.id ? responseData.id.toString() : crypto.randomUUID()\<close>: the number 0,
  the empty string and a missing property are falsy. \<open>uuid\<close> is the value that
  \<^verbatim>\<open>crypto.randomUUID()\<close> would return.
\<close>

fun id_or_uuid :: "json_id \<Rightarrow> string \<Rightarrow> string" where
  "id_or_uuid (IdNumber n) uuid = (if n \<noteq> 0 then int_toString n else uuid)"
| "id_or_uuid (IdString s) uuid = (if s \<noteq> [] then s else uuid)"
| "id_or_uuid IdMissing uuid = uuid"

section \<open>The swipe handlers\<close>

text \<open>
  A handler receives the touch event and the task object of the row. Of the event only
  the position of the first touch is read. \<^verbatim>\<open>e.preventDefault()\<close> acts on the scrolling of
  the page and not on the state of the component; it is left out. The states that the
  specification names are read off the fields: a task is active while \<^verbatim>\<open>isSwipeActive\<close>
  is set, a move is pending while \<^verbatim>\<open>showMoveOptions\<close> is set, and a delete is pending
  while its callback is in the timer queue.
\<close>

text \<open>Lines 337 to 344 of \<^verbatim>\<open>handleTouchMove\<close>: the value assigned to \<^verbatim>\<open>newX\<close>.\<close>

definition newX :: "real \<Rightarrow> real" where
  "newX deltaX =
     (if deltaX > deleteThreshold then deleteThreshold + (deltaX - deleteThreshold) * 0.2
      else if deltaX < moveThreshold * 1.5
        then moveThreshold * 1.5 + (deltaX - moveThreshold * 1.5) * 0.2
      else deltaX)"

definition handleTouchStart :: "touch \<Rightarrow> ref \<Rightarrow> state \<Rightarrow> state" where
  "handleTouchStart e t st =
     (if isEditing (heap st t) then st
      else upd_task t (\<lambda>x. x\<lparr>isSwipeActive := True\<rparr>)
             (st\<lparr>touchStartX := clientX e, touchStartY := clientY e, isSwiping := False\<rparr>))"

definition handleTouchMove :: "touch \<Rightarrow> ref \<Rightarrow> state \<Rightarrow> state" where
  "handleTouchMove e t st =
     (if \<not> isSwipeActive (heap st t) \<or> isEditing (heap st t) then st
      else
        let deltaX = clientX e - touchStartX st;
            deltaY = clientY e - touchStartY st;
            st1 = (if \<not> isSwiping st \<and> \<bar>deltaX\<bar> > 10
                   then (if \<bar>deltaX\<bar> > \<bar>deltaY\<bar> then st\<lparr>isSwiping := True\<rparr> else st)
                   else st)
        in if isSwiping st1 then upd_task t (\<lambda>x. x\<lparr>swipeX := newX deltaX\<rparr>) st1 else st1)"

text \<open>
  \<^verbatim>\<open>setTimeout(cb, delay)\<close> puts the callback in the timer queue; nothing of it runs
  before the clock has reached \<open>now + delay\<close>.
\<close>

definition setTimeout :: "nat \<Rightarrow> ref \<Rightarrow> nat \<Rightarrow> state \<Rightarrow> state" where
  "setTimeout dayIndex t delay st =
     st\<lparr>timers := timers st @ [\<lparr>due = now st + delay, cb_dayIndex = dayIndex, cb_task = t\<rparr>]\<rparr>"

definition handleTouchEnd :: "touch \<Rightarrow> ref \<Rightarrow> nat \<Rightarrow> state \<Rightarrow> state" where
  "handleTouchEnd e t dayIndex st =
     (if \<not> isSwipeActive (heap st t) \<or> isEditing (heap st t) then st
      else
        let swipeDistance = swipeX (heap st t);
            st1 = (upd_task t (\<lambda>x. x\<lparr>isSwipeActive := False\<rparr>) st)\<lparr>isSwiping := False\<rparr>
        in if swipeDistance \<ge> deleteThreshold
           then setTimeout dayIndex t 200 (upd_task t (\<lambda>x. x\<lparr>swipeX := 300\<rparr>) st1)
           else if swipeDistance \<le> moveThreshold
           then upd_task t (\<lambda>x. x\<lparr>showMoveOptions := True, swipeX := moveThreshold\<rparr>) st1
           else upd_task t (\<lambda>x. x\<lparr>swipeX := 0, showMoveOptions := False\<rparr>) st1)"

definition resetTaskSwipe :: "ref \<Rightarrow> state \<Rightarrow> state" where
  "resetTaskSwipe t st =
     upd_task t (\<lambda>x. x\<lparr>swipeX := 0, showMoveOptions := False, isSwipeActive := False\<rparr>) st"

section \<open>The task operations\<close>

text \<open>
  Each of the five operations is an \<^verbatim>\<open>async\<close> function with one \<^verbatim>\<open>await fetch(...)\<close>. It is
  modelled in two parts. \<open>f_start\<close> is the code up to the \<^verbatim>\<open>await\<close>: it returns the locals
  that the rest of the body needs (\<open>None\<close> when the function returns, or throws, before
  any request is made) and appends the request to the trace. \<open>f_resume\<close> is the code
  after the \<^verbatim>\<open>await\<close>, run on the state of the moment the response arrives. \<open>f\<close> itself
  is the operation whose response arrives before anything else happens. The failure
  branches write to the console and do nothing else; the console is not part of the
  state.
\<close>

definition addTask_start :: "nat \<Rightarrow> state \<Rightarrow> jstring option \<times> state" where
  "addTask_start dayIndex st =
     (if dayIndex < length (days st) then
        let dayObj = days st ! dayIndex;
            desc = trim (newTaskDescription dayObj)
        in if desc = [] then (None, st)
           else (Some desc, st\<lparr>requests := requests st @ [POST_tasks desc (name dayObj)]\<rparr>)
      else (None, st))"

definition addTask_resume :: "nat \<Rightarrow> jstring \<Rightarrow> response \<Rightarrow> string \<Rightarrow> state \<Rightarrow> state" where
  "addTask_resume dayIndex desc resp uuid st =
     (case resp of
        StatusOk (Json i) \<Rightarrow>
          upd_day dayIndex (\<lambda>d. d\<lparr>newTaskDescription := []\<rparr>)
            (push_task dayIndex
               \<lparr>task_id = id_or_uuid i uuid, description = desc, completed = False,
                popoverOpen = False, isEditing = False, editingText = [], swipeX = 0,
                isSwipeActive = False, showMoveOptions = False\<rparr> st)
      | _ \<Rightarrow> st)"

definition addTask :: "nat \<Rightarrow> response \<Rightarrow> string \<Rightarrow> state \<Rightarrow> state" where
  "addTask dayIndex resp uuid st =
     (case addTask_start dayIndex st of
        (None, st') \<Rightarrow> st'
      | (Some desc, st') \<Rightarrow> addTask_resume dayIndex desc resp uuid st')"

definition deleteTask_start :: "string \<Rightarrow> state \<Rightarrow> state" where
  "deleteTask_start taskId st = st\<lparr>requests := requests st @ [DELETE_task taskId]\<rparr>"

text \<open>
  With an index outside \<^verbatim>\<open>days\<close> the read \<^verbatim>\<open>days[dayIndex].tasks\<close> throws inside the
  \<^verbatim>\<open>try\<close> block, before anything is assigned.
\<close>

definition deleteTask_resume :: "nat \<Rightarrow> string \<Rightarrow> response \<Rightarrow> state \<Rightarrow> state" where
  "deleteTask_resume dayIndex taskId resp st =
     (case resp of
        StatusOk _ \<Rightarrow>
          (if dayIndex < length (days st) then
             (upd_day dayIndex
                (\<lambda>d. d\<lparr>tasks := filter (\<lambda>r. task_id (heap st r) \<noteq> taskId) (tasks d)\<rparr>) st)
             \<lparr>taskHoverState := (taskHoverState st)(taskId := None)\<rparr>
           else st)
      | _ \<Rightarrow> st)"

definition deleteTask :: "nat \<Rightarrow> string \<Rightarrow> response \<Rightarrow> state \<Rightarrow> state" where
  "deleteTask dayIndex taskId resp st =
     deleteTask_resume dayIndex taskId resp (deleteTask_start taskId st)"

definition toggleTask_start :: "nat \<Rightarrow> string \<Rightarrow> state \<Rightarrow> (ref \<times> bool) option \<times> state" where
  "toggleTask_start dayIndex taskId st =
     (if dayIndex < length (days st) then
        (case find (\<lambda>r. task_id (heap st r) = taskId) (tasks (days st ! dayIndex)) of
           None \<Rightarrow> (None, st)
         | Some taskObj \<Rightarrow>
             let newCompleted = (\<not> completed (heap st taskObj))
             in (Some (taskObj, newCompleted),
                 st\<lparr>requests := requests st @ [PUT_completed taskId newCompleted]\<rparr>))
      else (None, st))"

definition toggleTask_resume :: "ref \<Rightarrow> bool \<Rightarrow> response \<Rightarrow> state \<Rightarrow> state" where
  "toggleTask_resume taskObj newCompleted resp st =
     (case resp of
        StatusOk _ \<Rightarrow> upd_task taskObj (\<lambda>x. x\<lparr>completed := newCompleted\<rparr>) st
      | _ \<Rightarrow> st)"

definition toggleTask :: "nat \<Rightarrow> string \<Rightarrow> response \<Rightarrow> state \<Rightarrow> state" where
  "toggleTask dayIndex taskId resp st =
     (case toggleTask_start dayIndex taskId st of
        (None, st') \<Rightarrow> st'
      | (Some (taskObj, newCompleted), st') \<Rightarrow> toggleTask_resume taskObj newCompleted resp st')"

text \<open>
  \<^verbatim>\<open>moveTask\<close>: with \<open>toDayIndex\<close> outside \<^verbatim>\<open>days\<close>, building the request body throws
  inside the \<^verbatim>\<open>try\<close> block and no request is made. After a successful response the two
  numbered steps of the source run in their order; a step that reads a day outside
  \<^verbatim>\<open>days\<close> throws and ends the block there.
\<close>

definition moveTask_start :: "nat \<Rightarrow> ref \<Rightarrow> nat \<Rightarrow> state \<Rightarrow> bool \<times> state" where
  "moveTask_start fromDayIndex t toDayIndex st =
     (if fromDayIndex = toDayIndex then (False, st)
      else if toDayIndex < length (days st) then
        (True, st\<lparr>requests := requests st @
                    [PUT_day (task_id (heap st t)) (name (days st ! toDayIndex))]\<rparr>)
      else (False, st))"

definition moveTask_resume :: "nat \<Rightarrow> ref \<Rightarrow> nat \<Rightarrow> response \<Rightarrow> state \<Rightarrow> state" where
  "moveTask_resume fromDayIndex t toDayIndex resp st =
     (case resp of
        StatusOk _ \<Rightarrow>
          (if fromDayIndex < length (days st) then
             let st1 = upd_day fromDayIndex
                         (\<lambda>d. d\<lparr>tasks := filter (\<lambda>r. task_id (heap st r) \<noteq> task_id (heap st t))
                                            (tasks d)\<rparr>) st
             in if toDayIndex < length (days st1) then
                  push_task toDayIndex
                    \<lparr>task_id = task_id (heap st1 t), description = description (heap st1 t),
                     completed = completed (heap st1 t), popoverOpen = False, isEditing = False,
                     editingText = [], swipeX = 0, isSwipeActive = False,
                     showMoveOptions = False\<rparr> st1
                else st1
           else st)
      | _ \<Rightarrow> st)"

definition moveTask :: "nat \<Rightarrow> ref \<Rightarrow> nat \<Rightarrow> response \<Rightarrow> state \<Rightarrow> state" where
  "moveTask fromDayIndex t toDayIndex resp st =
     (case moveTask_start fromDayIndex t toDayIndex st of
        (False, st') \<Rightarrow> st'
      | (True, st') \<Rightarrow> moveTask_resume fromDayIndex t toDayIndex resp st')"

definition startEditingTask :: "ref \<Rightarrow> state \<Rightarrow> state" where
  "startEditingTask t st =
     upd_task t (\<lambda>x. x\<lparr>isEditing := True, editingText := description x\<rparr>) st"

definition cancelTaskEdit :: "ref \<Rightarrow> state \<Rightarrow> state" where
  "cancelTaskEdit t st = upd_task t (\<lambda>x. x\<lparr>isEditing := False, editingText := []\<rparr>) st"

definition saveTaskEdit_start :: "ref \<Rightarrow> state \<Rightarrow> jstring option \<times> state" where
  "saveTaskEdit_start t st =
     (if trim (editingText (heap st t)) = []
      then (None, upd_task t (\<lambda>x. x\<lparr>isEditing := False, editingText := []\<rparr>) st)
      else
        let newText = trim (editingText (heap st t))
        in (Some newText,
            st\<lparr>requests := requests st @ [PUT_text (task_id (heap st t)) newText]\<rparr>))"

text \<open>The \<^verbatim>\<open>finally\<close> block runs after the \<^verbatim>\<open>try\<close> and the \<^verbatim>\<open>catch\<close>, whatever the response.\<close>

definition saveTaskEdit_resume :: "ref \<Rightarrow> jstring \<Rightarrow> response \<Rightarrow> state \<Rightarrow> state" where
  "saveTaskEdit_resume t newText resp st =
     (let st1 = (case resp of
                   StatusOk _ \<Rightarrow> upd_task t (\<lambda>x. x\<lparr>description := newText\<rparr>) st
                 | _ \<Rightarrow> st)
      in upd_task t (\<lambda>x. x\<lparr>isEditing := False, editingText := []\<rparr>) st1)"

definition saveTaskEdit :: "ref \<Rightarrow> response \<Rightarrow> state \<Rightarrow> state" where
  "saveTaskEdit t resp st =
     (case saveTaskEdit_start t st of
        (None, st') \<Rightarrow> st'
      | (Some newText, st') \<Rightarrow> saveTaskEdit_resume t newText resp st')"

definition handleMoveFromSwipe :: "nat \<Rightarrow> ref \<Rightarrow> nat \<Rightarrow> response \<Rightarrow> state \<Rightarrow> state" where
  "handleMoveFromSwipe fromDayIndex t toDayIndex resp st =
     moveTask fromDayIndex t toDayIndex resp (resetTaskSwipe t st)"

text \<open>The two-way bindings of the text inputs: typing assigns the bound field.\<close>

definition input_newTaskDescription :: "nat \<Rightarrow> jstring \<Rightarrow> state \<Rightarrow> state" where
  "input_newTaskDescription dayIndex s st =
     (if dayIndex < length (days st)
      then upd_day dayIndex (\<lambda>d. d\<lparr>newTaskDescription := s\<rparr>) st else st)"

definition input_editingText :: "ref \<Rightarrow> jstring \<Rightarrow> state \<Rightarrow> state" where
  "input_editingText t s st = upd_task t (\<lambda>x. x\<lparr>editingText := s\<rparr>) st"

text \<open>
  The other assignments of the markup: \<^verbatim>\<open>taskHoverState[task.id] = b\<close> on mouse enter and
  leave, and \<^verbatim>\<open>task.popoverOpen\<close>, which is bound to the popover and set to false by a
  click on a target day.
\<close>

definition mouse_hover :: "ref \<Rightarrow> bool \<Rightarrow> state \<Rightarrow> state" where
  "mouse_hover t b st = st\<lparr>taskHoverState := (taskHoverState st)(task_id (heap st t) \<mapsto> b)\<rparr>"

definition set_popoverOpen :: "ref \<Rightarrow> bool \<Rightarrow> state \<Rightarrow> state" where
  "set_popoverOpen t b st = upd_task t (\<lambda>x. x\<lparr>popoverOpen := b\<rparr>) st"

subsection \<open>Loading the buckets\<close>

text \<open>
  \<^verbatim>\<open>onMount\<close> asks the Remote Store for the tasks of each day in turn, with one \<^verbatim>\<open>await\<close>
  per day. A row of the answer has an \<^verbatim>\<open>id\<close> (an integer, a string, or none), a
  \<^verbatim>\<open>text\<close> (or none) and a \<^verbatim>\<open>completed\<close> that is a boolean or a number (or missing).
  \<open>GetRejected\<close>: the fetch rejects. \<open>GetNotOk\<close>: \<^verbatim>\<open>res.ok\<close> is false. \<open>GetOk b\<close>: \<^verbatim>\<open>res.ok\<close>
  is true and \<open>b\<close> is what \<^verbatim>\<open>res.json()\<close> gives: \<open>GetBadJson\<close> when it rejects or yields
  something on which \<^verbatim>\<open>.map\<close> or the read of a row's properties throws, \<open>GetNull\<close> for
  \<^verbatim>\<open>null\<close> or another falsy value (then \<^verbatim>\<open>payload || []\<close> is the empty array),
  \<open>GetRows rows\<close> for an array of rows.
\<close>

datatype json_flag = FlagBool bool | FlagNumber int | FlagMissing

record row =
  row_id :: json_id
  row_text :: "jstring option"
  row_completed :: json_flag

datatype get_body = GetBadJson | GetNull | GetRows "row list"

datatype get_response = GetRejected | GetNotOk | GetOk get_body

text \<open>\<^verbatim>\<open>Boolean(row.completed)\<close> and \<^verbatim>\<open>row.text || ''\<close>.\<close>

fun Boolean :: "json_flag \<Rightarrow> bool" where
  "Boolean (FlagBool b) = b"
| "Boolean (FlagNumber n) = (n \<noteq> 0)"
| "Boolean FlagMissing = False"

definition row_task :: "row \<Rightarrow> string \<Rightarrow> task" where
  "row_task r uuid =
     \<lparr>task_id = id_or_uuid (row_id r) uuid,
      description = (case row_text r of None \<Rightarrow> [] | Some s \<Rightarrow> s),
      completed = Boolean (row_completed r),
      popoverOpen = False, isEditing = False, editingText = [], swipeX = 0,
      isSwipeActive = False, showMoveOptions = False\<rparr>"

text \<open>
  \<^verbatim>\<open>days[i].tasks = payload.map(...)\<close>: the objects of the new array are new objects,
  stored from \<open>nextRef\<close> on, and the day's list becomes the list of their references.
\<close>

definition assign_tasks :: "nat \<Rightarrow> task list \<Rightarrow> state \<Rightarrow> state" where
  "assign_tasks i ts st =
     (let r = nextRef st; n = length ts
      in upd_day i (\<lambda>d. d\<lparr>tasks := [r..<r + n]\<rparr>)
           (st\<lparr>heap := (\<lambda>a. if r \<le> a \<and> a < r + n then ts ! (a - r) else heap st a),
               nextRef := r + n\<rparr>))"

text \<open>
  One turn of the loop of \<^verbatim>\<open>onMount\<close>, in two parts as above. \<open>uuids k\<close> is the value that
  \<^verbatim>\<open>crypto.randomUUID()\<close> would return for the row \<open>k\<close>. A failed status leaves the day as
  it is (\<^verbatim>\<open>continue\<close>); the \<^verbatim>\<open>catch\<close> block empties it.
\<close>

definition onMount_start :: "nat \<Rightarrow> state \<Rightarrow> state" where
  "onMount_start i st =
     (if i < length (days st)
      then st\<lparr>requests := requests st @ [GET_tasks (name (days st ! i))]\<rparr> else st)"

definition onMount_resume :: "nat \<Rightarrow> get_response \<Rightarrow> (nat \<Rightarrow> string) \<Rightarrow> state \<Rightarrow> state" where
  "onMount_resume i resp uuids st =
     (case resp of
        GetRejected \<Rightarrow> upd_day i (\<lambda>d. d\<lparr>tasks := []\<rparr>) st
      | GetNotOk \<Rightarrow> st
      | GetOk GetBadJson \<Rightarrow> upd_day i (\<lambda>d. d\<lparr>tasks := []\<rparr>) st
      | GetOk GetNull \<Rightarrow> upd_day i (\<lambda>d. d\<lparr>tasks := []\<rparr>) st
      | GetOk (GetRows rows) \<Rightarrow>
          assign_tasks i (map (\<lambda>k. row_task (rows ! k) (uuids k)) [0..<length rows]) st)"

text \<open>The loop, for the answers that arrive while nothing else happens.\<close>

fun onMount_loop :: "nat \<Rightarrow> (get_response \<times> (nat \<Rightarrow> string)) list \<Rightarrow> state \<Rightarrow> state" where
  "onMount_loop i [] st = st"
| "onMount_loop i ((resp, uuids) # rs) st =
     (if i < length (days st)
      then onMount_loop (Suc i) rs (onMount_resume i resp uuids (onMount_start i st))
      else st)"

definition onMount :: "(get_response \<times> (nat \<Rightarrow> string)) list \<Rightarrow> state \<Rightarrow> state" where
  "onMount rs st = onMount_loop 0 rs st"

subsection \<open>The timer queue\<close>

text \<open>
  Running the callback that \<^verbatim>\<open>handleTouchEnd\<close> registered: it calls
  \<^verbatim>\<open>deleteTask(dayIndex, task.id)\<close>, which runs up to its \<^verbatim>\<open>await\<close>. \<open>advance ms\<close> lets
  \<open>ms\<close> milliseconds pass: the timers that are due leave the queue and run, in the order
  in which they were registered.
\<close>

definition fire_timer :: "timer \<Rightarrow> state \<Rightarrow> state" where
  "fire_timer tm st = deleteTask_start (task_id (heap st (cb_task tm))) st"

definition advance :: "nat \<Rightarrow> state \<Rightarrow> state" where
  "advance ms st =
     (let n = now st + ms
      in fold fire_timer (filter (\<lambda>tm. due tm \<le> n) (timers st))
           (st\<lparr>now := n, timers := filter (\<lambda>tm. \<not> due tm \<le> n) (timers st)\<rparr>))"

subsection \<open>What is observed of a state\<close>

text \<open>
  \<open>collections\<close> gives, for every bucket, the list of the task objects of that day with
  all the fields that the code keeps in them. \<open>persistent\<close> keeps the fields of a task
  of the data model, which are those that the Remote Store holds: the id, the
  description and the completed flag. The other fields (the edit text and flag, the
  popover flag, the swipe offset and flags) are transient state of the presentation
  that the code keeps in the same objects.
\<close>

definition collections :: "state \<Rightarrow> task list list" where
  "collections st = map (\<lambda>d. map (heap st) (tasks d)) (days st)"

definition persistent :: "task \<Rightarrow> string \<times> jstring \<times> bool" where
  "persistent x = (task_id x, description x, completed x)"

definition persistent_collections :: "state \<Rightarrow> (string \<times> jstring \<times> bool) list list" where
  "persistent_collections st = map (map persistent) (collections st)"

definition bucket_ids :: "state \<Rightarrow> nat \<Rightarrow> string list" where
  "bucket_ids st i = map (\<lambda>r. task_id (heap st r)) (tasks (days st ! i))"

definition all_ids :: "state \<Rightarrow> string list" where
  "all_ids st = concat (map (bucket_ids st) [0..<length (days st)])"

text \<open>Every reference held by a day denotes an object that has been allocated.\<close>

definition refs_allocated :: "state \<Rightarrow> bool" where
  "refs_allocated st =
     (\<forall>k < length (days st). \<forall>r \<in> set (tasks (days st ! k)). r < nextRef st)"

definition ids_unique :: "state \<Rightarrow> bool" where
  "ids_unique st =
     ((\<forall>i < length (days st). distinct (bucket_ids st i))
      \<and> (\<forall>i < length (days st). \<forall>j < length (days st).
            i \<noteq> j \<longrightarrow> set (bucket_ids st i) \<inter> set (bucket_ids st j) = {}))"

text \<open>
  \<open>same_ids st st'\<close>: from \<open>st\<close> to \<open>st'\<close> no day has gained or lost a reference, nothing
  was allocated and no object has changed its id.
\<close>

definition same_ids :: "state \<Rightarrow> state \<Rightarrow> bool" where
  "same_ids st st' =
     (map tasks (days st') = map tasks (days st) \<and> nextRef st' = nextRef st
      \<and> (\<forall>r. task_id (heap st' r) = task_id (heap st r)))"

subsection \<open>Runs of the component\<close>

text \<open>
  Whatever changes the state is an event: a call of a handler by the markup, the part of
  an operation before its \<^verbatim>\<open>await\<close>, the part after it on the arrival of a response, a
  turn of the loading loop, the passing of time. The two parts of an operation are
  separate events, so that several requests can be in flight together and a response
  can be a failure. A response event carries the locals that the suspended body holds.
  \<open>apply_event\<close> is what the code does at one event and \<open>run\<close> what it does along a list
  of events; neither has a side condition.
\<close>

datatype event =
    Input_newTaskDescription nat jstring
  | AddTask_call nat
  | AddTask_response nat jstring response string
  | DeleteTask_call string
  | DeleteTask_response nat string response
  | ToggleTask_call nat string
  | ToggleTask_response ref bool response
  | MoveTask_call nat ref nat
  | MoveTask_response nat ref nat response
  | StartEditingTask ref
  | Input_editingText ref jstring
  | CancelTaskEdit ref
  | SaveTaskEdit_call ref
  | SaveTaskEdit_response ref jstring response
  | TouchStart touch ref
  | TouchMove touch ref
  | TouchEnd touch ref nat
  | ResetTaskSwipe ref
  | Advance nat
  | Mouse_hover ref bool
  | Set_popoverOpen ref bool
  | OnMount_call nat
  | OnMount_response nat get_response "nat \<Rightarrow> string"

fun apply_event :: "event \<Rightarrow> state \<Rightarrow> state" where
  "apply_event (Input_newTaskDescription dayIndex s) st = input_newTaskDescription dayIndex s st"
| "apply_event (AddTask_call dayIndex) st = snd (addTask_start dayIndex st)"
| "apply_event (AddTask_response dayIndex desc resp uuid) st =
     addTask_resume dayIndex desc resp uuid st"
| "apply_event (DeleteTask_call taskId) st = deleteTask_start taskId st"
| "apply_event (DeleteTask_response dayIndex taskId resp) st =
     deleteTask_resume dayIndex taskId resp st"
| "apply_event (ToggleTask_call dayIndex taskId) st = snd (toggleTask_start dayIndex taskId st)"
| "apply_event (ToggleTask_response taskObj newCompleted resp) st =
     toggleTask_resume taskObj newCompleted resp st"
| "apply_event (MoveTask_call fromDayIndex t toDayIndex) st =
     snd (moveTask_start fromDayIndex t toDayIndex st)"
| "apply_event (MoveTask_response fromDayIndex t toDayIndex resp) st =
     moveTask_resume fromDayIndex t toDayIndex resp st"
| "apply_event (StartEditingTask t) st = startEditingTask t st"
| "apply_event (Input_editingText t s) st = input_editingText t s st"
| "apply_event (CancelTaskEdit t) st = cancelTaskEdit t st"
| "apply_event (SaveTaskEdit_call t) st = snd (saveTaskEdit_start t st)"
| "apply_event (SaveTaskEdit_response t newText resp) st = saveTaskEdit_resume t newText resp st"
| "apply_event (TouchStart e t) st = handleTouchStart e t st"
| "apply_event (TouchMove e t) st = handleTouchMove e t st"
| "apply_event (TouchEnd e t dayIndex) st = handleTouchEnd e t dayIndex st"
| "apply_event (ResetTaskSwipe t) st = resetTaskSwipe t st"
| "apply_event (Advance ms) st = advance ms st"
| "apply_event (Mouse_hover t b) st = mouse_hover t b st"
| "apply_event (Set_popoverOpen t b) st = set_popoverOpen t b st"
| "apply_event (OnMount_call i) st = onMount_start i st"
| "apply_event (OnMount_response i resp uuids) st = onMount_resume i resp uuids st"

definition run :: "event list \<Rightarrow> state \<Rightarrow> state" where
  "run evs st = fold apply_event evs st"

text \<open>
  \<open>in_order e st\<close>: the event \<open>e\<close> arrives in order in the state \<open>st\<close>. It says something
  of three kinds of events only:
  \<^item> a confirmed create brings an id that no task on the board has;
  \<^item> when a move is confirmed, the task object is still in the day it is moved from;
  \<^item> the rows of a loaded day have ids that differ from one another and from the ids
    in the other days.
  The first and the third are what the Remote Store provides when it issues the ids. The
  second holds when no other move or delete of the same task is confirmed between the
  call of the move and its response, as when the operations on one task are issued one
  after the other, each after the response to the one before.
  \<open>in_order_run evs st\<close>: every event of \<open>evs\<close> arrives in order in the state in which it
  arrives.
\<close>

definition loaded_ids :: "row list \<Rightarrow> (nat \<Rightarrow> string) \<Rightarrow> string list" where
  "loaded_ids rows uuids = map (\<lambda>k. id_or_uuid (row_id (rows ! k)) (uuids k)) [0..<length rows]"

fun in_order :: "event \<Rightarrow> state \<Rightarrow> bool" where
  "in_order (AddTask_response dayIndex desc resp uuid) st =
     (case resp of
        StatusOk (Json i) \<Rightarrow> id_or_uuid i uuid \<notin> set (all_ids st)
      | _ \<Rightarrow> True)"
| "in_order (MoveTask_response fromDayIndex t toDayIndex resp) st =
     (case resp of
        StatusOk _ \<Rightarrow>
          fromDayIndex < length (days st) \<and> t \<in> set (tasks (days st ! fromDayIndex))
      | _ \<Rightarrow> True)"
| "in_order (OnMount_response i resp uuids) st =
     (case resp of
        GetOk (GetRows rows) \<Rightarrow>
          distinct (loaded_ids rows uuids)
          \<and> (\<forall>k < length (days st).
                k \<noteq> i \<longrightarrow> set (loaded_ids rows uuids) \<inter> set (bucket_ids st k) = {})
      | _ \<Rightarrow> True)"
| "in_order _ st = True"

fun in_order_run :: "event list \<Rightarrow> state \<Rightarrow> bool" where
  "in_order_run [] st = True"
| "in_order_run (e # es) st = (in_order e st \<and> in_order_run es (apply_event e st))"

subsection \<open>The offset formula as the specification words it\<close>

text \<open>
  The specification's sentence on the offset of a locked gesture: the displacement
  itself strictly between the move threshold and the delete threshold, and outside that
  range \<open>threshold + (\<Delta>x - threshold) \<times> 0.2\<close> with the delete threshold in the positive
  direction and the move threshold in the negative direction.
\<close>

definition spec_offset :: "real \<Rightarrow> real" where
  "spec_offset dx =
     (if moveThreshold < dx \<and> dx < deleteThreshold then dx
      else if dx > 0 then deleteThreshold + (dx - deleteThreshold) * 0.2
      else moveThreshold + (dx - moveThreshold) * 0.2)"

subsection \<open>Sample runs\<close>

text \<open>
  \<open>s_task\<close>: ``Call Bob'' is typed into Monday's input and created, the store answering
  with the id 42. \<open>s_two\<close>: a second task on Monday, with the numeric id 43.
\<close>

definition s_task :: state where
  "s_task = addTask 0 (StatusOk (Json (IdString ''42''))) ''uuid''
              (input_newTaskDescription 0 (js ''Call Bob'') init_state)"

definition s_two :: state where
  "s_two = addTask 0 (StatusOk (Json (IdNumber 43))) ''uuid''
              (input_newTaskDescription 0 (js ''Buy milk'') s_task)"

definition s_moved :: state where
  "s_moved = moveTask 0 0 1 (StatusOk BadJson) s_task"

text \<open>A gesture on the task of \<open>s_task\<close> with the samples \<open>\<Delta>x = 0, 50, 130\<close>, and its end.\<close>

definition s_started :: state where
  "s_started = handleTouchStart \<lparr>clientX = 0, clientY = 0\<rparr> 0 s_task"

definition s_locked :: state where
  "s_locked = handleTouchMove \<lparr>clientX = 50, clientY = 0\<rparr> 0
                (handleTouchMove \<lparr>clientX = 0, clientY = 0\<rparr> 0 s_started)"

definition s_swiped :: state where
  "s_swiped = handleTouchMove \<lparr>clientX = 130, clientY = 0\<rparr> 0 s_locked"

definition s_ended :: state where
  "s_ended = handleTouchEnd \<lparr>clientX = 130, clientY = 0\<rparr> 0 0 s_swiped"

text \<open>A gesture that begins with a mostly vertical move of more than 10 units.\<close>

definition s_vertical :: state where
  "s_vertical = handleTouchMove \<lparr>clientX = 11, clientY = 50\<rparr> 0 s_started"

text \<open>A locked gesture on the second task of \<open>s_two\<close>, started at \<open>x = 100\<close>.\<close>

definition s_gestureB :: state where
  "s_gestureB = handleTouchMove \<lparr>clientX = 200, clientY = 0\<rparr> 1
                  (handleTouchStart \<lparr>clientX = 100, clientY = 0\<rparr> 1 s_two)"

text \<open>The task of \<open>s_task\<close> in edit mode, with a new text and with a blank text.\<close>

definition s_editing :: state where
  "s_editing = input_editingText 0 (js ''Call Alice'') (startEditingTask 0 s_task)"

definition s_blank_edit :: state where
  "s_blank_edit = input_editingText 0 (js ''  '') (startEditingTask 0 s_task)"

definition s_blank_input :: state where
  "s_blank_input = input_newTaskDescription 0 (js ''  '') s_task"

text \<open>
  The same with white space that is not ASCII: a no-break space (U+00A0), an em space
  (U+2003) and a tab.
\<close>

definition s_nbsp_edit :: state where
  "s_nbsp_edit = input_editingText 0 [0xA0, 0x2003, 0x09] (startEditingTask 0 s_task)"

definition s_nbsp_input :: state where
  "s_nbsp_input = input_newTaskDescription 0 [0xA0, 0x2003, 0x09] s_task"

text \<open>
  Runs of events from the initial state: the create of \<open>s_task\<close>; after it, a move of
  the task to Tuesday that is confirmed before anything else happens; and, instead, a
  move to Tuesday and a move to Wednesday that are both called before either is
  confirmed.
\<close>

definition evs_created :: "event list" where
  "evs_created =
     [Input_newTaskDescription 0 (js ''Call Bob''), AddTask_call 0,
      AddTask_response 0 (js ''Call Bob'') (StatusOk (Json (IdString ''42''))) ''uuid'']"

definition evs_moved :: "event list" where
  "evs_moved =
     evs_created @ [MoveTask_call 0 0 1, MoveTask_response 0 0 1 (StatusOk BadJson)]"

definition evs_overlap :: "event list" where
  "evs_overlap =
     evs_created @
     [MoveTask_call 0 0 1, MoveTask_call 0 0 2,
      MoveTask_response 0 0 1 (StatusOk BadJson), MoveTask_response 0 0 2 (StatusOk BadJson)]"

section \<open>Auxiliary facts\<close>

lemmas store_defs = upd_day_def upd_task_def push_task_def Let_def

lemmas gesture_defs =
  handleTouchStart_def handleTouchMove_def handleTouchEnd_def resetTaskSwipe_def
  setTimeout_def upd_task_def newX_def deleteThreshold_def moveThreshold_def Let_def

lemmas task_op_defs =
  addTask_def addTask_start_def addTask_resume_def
  deleteTask_def deleteTask_start_def deleteTask_resume_def
  toggleTask_def toggleTask_start_def toggleTask_resume_def
  moveTask_def moveTask_start_def moveTask_resume_def
  saveTaskEdit_def saveTaskEdit_start_def saveTaskEdit_resume_def

subsection \<open>The sample runs, evaluated\<close>

lemma s_task_eq:
  "s_task =
     \<lparr>heap = (\<lambda>_. blank_task)(0 :=
         \<lparr>task_id = ''42'', description = js ''Call Bob'', completed = False,
          popoverOpen = False, isEditing = False, editingText = [], swipeX = 0,
          isSwipeActive = False, showMoveOptions = False\<rparr>),
      nextRef = 1,
      days = [\<lparr>name = ''Monday'', tasks = [0], newTaskDescription = [],
               dayBgColor = ''#FFF4E6''\<rparr>,
              new_day ''Tuesday'' 1, new_day ''Wednesday'' 2,
              new_day ''Thursday'' 3, new_day ''Friday'' 4, new_day ''Saturday'' 5,
              new_day ''Sunday'' 6, new_day ''Someday'' 7],
      taskHoverState = Map.empty,
      touchStartX = 0, touchStartY = 0, isSwiping = False,
      now = 0, timers = [], requests = [POST_tasks (js ''Call Bob'') ''Monday'']\<rparr>"
  by (simp add: s_task_def addTask_def addTask_start_def addTask_resume_def
        input_newTaskDescription_def store_defs init_state_def new_day_def warmGradient_def
        trim_def is_space_def js_def)

lemma s_two_eq:
  "s_two =
     \<lparr>heap = (\<lambda>_. blank_task)(0 :=
         \<lparr>task_id = ''42'', description = js ''Call Bob'', completed = False,
          popoverOpen = False, isEditing = False, editingText = [], swipeX = 0,
          isSwipeActive = False, showMoveOptions = False\<rparr>,
         Suc 0 := \<lparr>task_id = ''43'', description = js ''Buy milk'', completed = False,
          popoverOpen = False, isEditing = False, editingText = [], swipeX = 0,
          isSwipeActive = False, showMoveOptions = False\<rparr>),
      nextRef = 2,
      days = [\<lparr>name = ''Monday'', tasks = [0, 1], newTaskDescription = [],
               dayBgColor = ''#FFF4E6''\<rparr>,
              new_day ''Tuesday'' 1, new_day ''Wednesday'' 2,
              new_day ''Thursday'' 3, new_day ''Friday'' 4, new_day ''Saturday'' 5,
              new_day ''Sunday'' 6, new_day ''Someday'' 7],
      taskHoverState = Map.empty,
      touchStartX = 0, touchStartY = 0, isSwiping = False,
      now = 0, timers = [],
      requests = [POST_tasks (js ''Call Bob'') ''Monday'', POST_tasks (js ''Buy milk'') ''Monday'']\<rparr>"
  by (simp add: s_two_def s_task_eq addTask_def addTask_start_def addTask_resume_def
        input_newTaskDescription_def store_defs new_day_def warmGradient_def
        trim_def is_space_def js_def int_toString_def)

lemma s_started_eq:
  "s_started = s_task\<lparr>heap := (heap s_task)(0 := (heap s_task 0)\<lparr>isSwipeActive := True\<rparr>)\<rparr>"
  by (simp add: s_started_def s_task_eq handleTouchStart_def upd_task_def)

lemma s_locked_eq:
  "s_locked =
     s_task\<lparr>heap := (heap s_task)(0 := (heap s_task 0)\<lparr>swipeX := 50, isSwipeActive := True\<rparr>),
            isSwiping := True\<rparr>"
  by (simp add: s_locked_def s_started_eq s_task_eq gesture_defs)

lemma s_swiped_eq:
  "s_swiped =
     s_task\<lparr>heap := (heap s_task)(0 := (heap s_task 0)\<lparr>swipeX := 122, isSwipeActive := True\<rparr>),
            isSwiping := True\<rparr>"
  by (simp add: s_swiped_def s_locked_eq s_task_eq gesture_defs)

subsection \<open>The timer queue\<close>

lemma fold_fire_timer_requests:
  "requests (fold fire_timer tms st) =
     requests st @ map (\<lambda>tm. DELETE_task (task_id (heap st (cb_task tm)))) tms"
  and fold_fire_timer_heap: "heap (fold fire_timer tms st) = heap st"
  and fold_fire_timer_days: "days (fold fire_timer tms st) = days st"
  and fold_fire_timer_nextRef: "nextRef (fold fire_timer tms st) = nextRef st"
  and fold_fire_timer_timers: "timers (fold fire_timer tms st) = timers st"
  by (induction tms arbitrary: st) (simp_all add: fire_timer_def deleteTask_start_def)

lemma advance_requests:
  "requests (advance ms st) =
     requests st @ map (\<lambda>tm. DELETE_task (task_id (heap st (cb_task tm))))
                     (filter (\<lambda>tm. due tm \<le> now st + ms) (timers st))"
  by (simp add: advance_def Let_def fold_fire_timer_requests)

lemma advance_heap: "heap (advance ms st) = heap st"
  and advance_days: "days (advance ms st) = days st"
  and advance_nextRef: "nextRef (advance ms st) = nextRef st"
  and advance_timers:
    "timers (advance ms st) = filter (\<lambda>tm. \<not> due tm \<le> now st + ms) (timers st)"
  by (simp_all add: advance_def Let_def fold_fire_timer_heap fold_fire_timer_days
        fold_fire_timer_nextRef fold_fire_timer_timers)

lemma collections_cong:
  "days st' = days st \<Longrightarrow> heap st' = heap st \<Longrightarrow> collections st' = collections st"
  by (simp add: collections_def)

section \<open>The swipe gesture\<close>

text \<open>
  Claim C4, as the code has it. For every move event of a gesture that is locked (the
  task is active and not being edited, and the lock flag is set already or is set by
  this very event), with horizontal displacement \<open>dx\<close>, the offset stored in the task is
  \<open>dx\<close> itself when \<open>-120 \<le> dx \<le> 120\<close>, is \<open>120 + (dx - 120) \<times> 0.2\<close> beyond the delete
  threshold 120, and is \<open>-120 + (dx + 120) \<times> 0.2\<close> below \<open>-120\<close>, which is 1.5 times the
  move threshold and not the move threshold itself.
\<close>

theorem handleTouchMove_offset:
  assumes "isSwipeActive (heap st t)" and "\<not> isEditing (heap st t)"
    and "dx = clientX e - touchStartX st" and "dy = clientY e - touchStartY st"
    and "isSwiping st \<or> (10 < \<bar>dx\<bar> \<and> \<bar>dy\<bar> < \<bar>dx\<bar>)"
  shows "isSwiping (handleTouchMove e t st)
       \<and> swipeX (heap (handleTouchMove e t st) t) =
           (if 120 < dx then 120 + (dx - 120) * 0.2
            else if dx < - 120 then - 120 + (dx - (- 120)) * 0.2
            else dx)"
  using assms by (auto simp add: gesture_defs)

text \<open>The theorem at the third sample of the run \<open>0, 50, 130\<close>: the offset is 122.\<close>

theorem handleTouchMove_offset_witness:
  "isSwipeActive (heap s_locked 0) \<and> \<not> isEditing (heap s_locked 0) \<and> isSwiping s_locked
   \<and> swipeX (heap (handleTouchMove \<lparr>clientX = 130, clientY = 0\<rparr> 0 s_locked) 0) = 122"
proof -
  have h: "isSwipeActive (heap s_locked 0)" "\<not> isEditing (heap s_locked 0)"
    "(130::real) = clientX \<lparr>clientX = 130, clientY = 0\<rparr> - touchStartX s_locked"
    "(0::real) = clientY \<lparr>clientX = 130, clientY = 0\<rparr> - touchStartY s_locked"
    "isSwiping s_locked \<or> (10 < \<bar>130::real\<bar> \<and> \<bar>0::real\<bar> < \<bar>130::real\<bar>)"
    by (simp_all add: s_locked_eq s_task_eq)
  from handleTouchMove_offset [OF h] h show ?thesis by (simp add: s_locked_eq)
qed

text \<open>
  Claim C4 as it is stated fails between the move threshold and 1.5 times the move
  threshold: at \<open>\<Delta>x = -100\<close>, which is outside the open range from -80 to 120, the locked
  gesture stores -100, where the stated formula gives \<open>-80 + (-100 + 80) \<times> 0.2 = -84\<close>.
\<close>

theorem handleTouchMove_offset_counterexample:
  "isSwiping s_locked \<and> isSwipeActive (heap s_locked 0) \<and> \<not> isEditing (heap s_locked 0)
   \<and> \<not> (moveThreshold < - 100 \<and> - 100 < deleteThreshold)
   \<and> swipeX (heap (handleTouchMove \<lparr>clientX = - 100, clientY = 0\<rparr> 0 s_locked) 0) = - 100
   \<and> spec_offset (- 100) = - 84
   \<and> swipeX (heap (handleTouchMove \<lparr>clientX = - 100, clientY = 0\<rparr> 0 s_locked) 0)
       \<noteq> spec_offset (- 100)"
  by (simp add: s_locked_eq s_task_eq gesture_defs spec_offset_def)

text \<open>
  Claim C5. A gesture ends on a task that is active and not being edited, with the
  offset \<open>x\<close> stored in the task.
  \<^item> If \<open>x \<ge> 120\<close> (the delete threshold): the offset becomes 300, and the delete is
    pending: the call of \<^verbatim>\<open>deleteTask\<close> is put in the timer queue with a delay of 200 ms.
    The handler itself issues no request and leaves the days as they are; as long as
    less than 200 ms have passed the requests are those that would have been issued
    without this gesture, and once 200 ms have passed the DELETE request for the task
    is issued.
  \<^item> If \<open>x \<le> -80\<close> (the move threshold): the move picker is asked for
    (\<^verbatim>\<open>showMoveOptions\<close>) and the offset is exactly -80; nothing is scheduled.
  \<^item> Otherwise the offset is 0 and no action is pending.
  In every case the task is no longer active and the lock flag is cleared. In
  particular, in the run with the samples \<open>\<Delta>x = 0, 50, 130\<close> the offset before the end is
  122, and the end sets it to 300 and schedules the delete.
\<close>

theorem handleTouchEnd_classification:
  assumes "isSwipeActive (heap st t)" and "\<not> isEditing (heap st t)"
  shows
    "(let st' = handleTouchEnd e t dayIndex st; x = swipeX (heap st t)
      in (120 \<le> x \<longrightarrow>
            swipeX (heap st' t) = 300
          \<and> timers st' =
              timers st @ [\<lparr>due = now st + 200, cb_dayIndex = dayIndex, cb_task = t\<rparr>]
          \<and> requests st' = requests st \<and> days st' = days st
          \<and> (\<forall>ms. ms < 200 \<longrightarrow> requests (advance ms st') = requests (advance ms st))
          \<and> (\<forall>ms. 200 \<le> ms \<longrightarrow>
                requests (advance ms st') =
                  requests (advance ms st) @ [DELETE_task (task_id (heap st t))]))
       \<and> (x \<le> - 80 \<longrightarrow>
            showMoveOptions (heap st' t) \<and> swipeX (heap st' t) = - 80
          \<and> timers st' = timers st \<and> requests st' = requests st)
       \<and> (- 80 < x \<and> x < 120 \<longrightarrow>
            swipeX (heap st' t) = 0 \<and> \<not> showMoveOptions (heap st' t)
          \<and> timers st' = timers st \<and> requests st' = requests st)
       \<and> \<not> isSwipeActive (heap st' t) \<and> \<not> isSwiping st')
     \<and> swipeX (heap s_swiped 0) = 122
     \<and> swipeX (heap s_ended 0) = 300
     \<and> timers s_ended = [\<lparr>due = 200, cb_dayIndex = 0, cb_task = 0\<rparr>]
     \<and> requests s_ended = requests s_swiped
     \<and> requests (advance 200 s_ended) = requests s_swiped @ [DELETE_task ''42'']"
proof -
  have scenario:
    "swipeX (heap s_swiped 0) = 122 \<and> swipeX (heap s_ended 0) = 300
     \<and> timers s_ended = [\<lparr>due = 200, cb_dayIndex = 0, cb_task = 0\<rparr>]
     \<and> requests s_ended = requests s_swiped
     \<and> requests (advance 200 s_ended) = requests s_swiped @ [DELETE_task ''42'']"
    by (simp add: s_ended_def s_swiped_eq s_task_eq gesture_defs advance_requests)
  have general:
    "let st' = handleTouchEnd e t dayIndex st; x = swipeX (heap st t)
      in (120 \<le> x \<longrightarrow>
            swipeX (heap st' t) = 300
          \<and> timers st' =
              timers st @ [\<lparr>due = now st + 200, cb_dayIndex = dayIndex, cb_task = t\<rparr>]
          \<and> requests st' = requests st \<and> days st' = days st
          \<and> (\<forall>ms. ms < 200 \<longrightarrow> requests (advance ms st') = requests (advance ms st))
          \<and> (\<forall>ms. 200 \<le> ms \<longrightarrow>
                requests (advance ms st') =
                  requests (advance ms st) @ [DELETE_task (task_id (heap st t))]))
       \<and> (x \<le> - 80 \<longrightarrow>
            showMoveOptions (heap st' t) \<and> swipeX (heap st' t) = - 80
          \<and> timers st' = timers st \<and> requests st' = requests st)
       \<and> (- 80 < x \<and> x < 120 \<longrightarrow>
            swipeX (heap st' t) = 0 \<and> \<not> showMoveOptions (heap st' t)
          \<and> timers st' = timers st \<and> requests st' = requests st)
       \<and> \<not> isSwipeActive (heap st' t) \<and> \<not> isSwiping st'"
    using assms by (simp add: gesture_defs advance_requests)
  from general scenario show ?thesis by blast
qed

text \<open>
  The theorem on a gesture to the left: from the locked state (offset 50) a move to
  \<open>\<Delta>x = -100\<close> and the end. The picker is asked for and the offset is -80.
\<close>

theorem handleTouchEnd_classification_witness:
  "isSwipeActive (heap (handleTouchMove \<lparr>clientX = - 100, clientY = 0\<rparr> 0 s_locked) 0)
   \<and> \<not> isEditing (heap (handleTouchMove \<lparr>clientX = - 100, clientY = 0\<rparr> 0 s_locked) 0)
   \<and> swipeX (heap (handleTouchMove \<lparr>clientX = - 100, clientY = 0\<rparr> 0 s_locked) 0) \<le> - 80
   \<and> showMoveOptions
       (heap (handleTouchEnd \<lparr>clientX = - 100, clientY = 0\<rparr> 0 0
                (handleTouchMove \<lparr>clientX = - 100, clientY = 0\<rparr> 0 s_locked)) 0)
   \<and> swipeX
       (heap (handleTouchEnd \<lparr>clientX = - 100, clientY = 0\<rparr> 0 0
                (handleTouchMove \<lparr>clientX = - 100, clientY = 0\<rparr> 0 s_locked)) 0) = - 80"
proof -
  have h: "isSwipeActive (heap (handleTouchMove \<lparr>clientX = - 100, clientY = 0\<rparr> 0 s_locked) 0)"
    "\<not> isEditing (heap (handleTouchMove \<lparr>clientX = - 100, clientY = 0\<rparr> 0 s_locked) 0)"
    by (simp_all add: s_locked_eq s_task_eq gesture_defs)
  have x: "swipeX (heap (handleTouchMove \<lparr>clientX = - 100, clientY = 0\<rparr> 0 s_locked) 0) \<le> - 80"
    by (simp add: s_locked_eq s_task_eq gesture_defs)
  from handleTouchEnd_classification [OF h, of "\<lparr>clientX = - 100, clientY = 0\<rparr>" 0] x h
  show ?thesis by (simp add: Let_def)
qed

text \<open>
  Claim C6 as it is stated fails: the handler keeps no record that a gesture was taken
  for a vertical scroll. In the run below the first move past 10 units has
  \<open>|\<Delta>x| = 11 \<le> |\<Delta>y| = 50\<close> and does not lock; the next move of the same gesture, with
  \<open>|\<Delta>x| = 60 > |\<Delta>y| = 50\<close>, locks and changes the offset from 0 to 60.
\<close>

theorem vertical_scroll_counterexample:
  "isSwipeActive (heap s_started 0) \<and> \<not> isSwiping s_started
   \<and> (10::real) < \<bar>11 - touchStartX s_started\<bar>
   \<and> \<bar>11 - touchStartX s_started\<bar> \<le> \<bar>50 - touchStartY s_started\<bar>
   \<and> \<not> isSwiping s_vertical \<and> swipeX (heap s_vertical 0) = 0
   \<and> isSwiping (handleTouchMove \<lparr>clientX = 60, clientY = 50\<rparr> 0 s_vertical)
   \<and> swipeX (heap (handleTouchMove \<lparr>clientX = 60, clientY = 50\<rparr> 0 s_vertical) 0) = 60"
  by (simp add: s_vertical_def s_started_eq s_task_eq gesture_defs)

text \<open>
  Claim C6, as the code has it. While the gesture is not locked, a move with
  \<open>|\<Delta>x| \<le> 10\<close> or \<open>|\<Delta>x| \<le> |\<Delta>y|\<close> changes nothing at all: no lock, no offset. The test
  is made again at every move of the gesture: a move of an active task with
  \<open>|\<Delta>x| > 10\<close> and \<open>|\<Delta>x| > |\<Delta>y|\<close> locks into horizontal-swipe mode and stores the
  offset, whatever the earlier moves were.
\<close>

theorem handleTouchMove_unlocked:
  assumes "\<not> isSwiping st"
    and "dx = clientX e - touchStartX st" and "dy = clientY e - touchStartY st"
  shows "(\<bar>dx\<bar> \<le> 10 \<or> \<bar>dx\<bar> \<le> \<bar>dy\<bar> \<longrightarrow> handleTouchMove e t st = st)
       \<and> (isSwipeActive (heap st t) \<and> \<not> isEditing (heap st t) \<and> 10 < \<bar>dx\<bar> \<and> \<bar>dy\<bar> < \<bar>dx\<bar> \<longrightarrow>
            isSwiping (handleTouchMove e t st)
          \<and> swipeX (heap (handleTouchMove e t st) t) = newX dx)"
  using assms by (auto simp add: handleTouchMove_def upd_task_def Let_def)

theorem handleTouchMove_unlocked_witness:
  "\<not> isSwiping s_started
   \<and> \<bar>11 - touchStartX s_started\<bar> \<le> \<bar>50 - touchStartY s_started\<bar>
   \<and> handleTouchMove \<lparr>clientX = 11, clientY = 50\<rparr> 0 s_started = s_started
   \<and> isSwipeActive (heap s_started 0) \<and> \<not> isEditing (heap s_started 0)
   \<and> isSwiping (handleTouchMove \<lparr>clientX = 60, clientY = 50\<rparr> 0 s_started)
   \<and> swipeX (heap (handleTouchMove \<lparr>clientX = 60, clientY = 50\<rparr> 0 s_started) 0) = 60"
proof -
  have h: "\<not> isSwiping s_started"
    by (simp add: s_started_eq s_task_eq)
  have v: "(11::real) = clientX \<lparr>clientX = 11, clientY = 50\<rparr> - touchStartX s_started"
    "(50::real) = clientY \<lparr>clientX = 11, clientY = 50\<rparr> - touchStartY s_started"
    by (simp_all add: s_started_eq s_task_eq)
  have w: "(60::real) = clientX \<lparr>clientX = 60, clientY = 50\<rparr> - touchStartX s_started"
    "(50::real) = clientY \<lparr>clientX = 60, clientY = 50\<rparr> - touchStartY s_started"
    by (simp_all add: s_started_eq s_task_eq)
  have a: "isSwipeActive (heap s_started 0) \<and> \<not> isEditing (heap s_started 0)"
    "\<bar>11 - touchStartX s_started\<bar> \<le> \<bar>50 - touchStartY s_started\<bar>"
    by (simp_all add: s_started_eq s_task_eq)
  from handleTouchMove_unlocked [OF h v, of 0] handleTouchMove_unlocked [OF h w, of 0] h a
  show ?thesis by (simp add: newX_def deleteThreshold_def moveThreshold_def)
qed

text \<open>
  Claim C7 as it is stated fails for the lock status and the recorded start position:
  \<^verbatim>\<open>isSwiping\<close>, \<^verbatim>\<open>touchStartX\<close> and \<^verbatim>\<open>touchStartY\<close> are single variables of the component,
  not fields of a task. In the run below a gesture on task 43 is locked, with start
  position 100 and the finger at \<open>x = 200\<close>. A second finger touches task 42; the first
  touch of that event is still the finger on task 43, so the start handler of task 42
  records 200 as the start position, and it clears the lock. The next move of the
  gesture on 43, to \<open>x = 230\<close>, then stores the offset 30 in task 43; without the touch
  on 42 it stores 122.
\<close>

theorem gesture_state_counterexample:
  "task_id (heap s_gestureB 0) \<noteq> task_id (heap s_gestureB 1)
   \<and> isSwipeActive (heap s_gestureB 1) \<and> isSwiping s_gestureB \<and> touchStartX s_gestureB = 100
   \<and> \<not> isSwiping (handleTouchStart \<lparr>clientX = 200, clientY = 0\<rparr> 0 s_gestureB)
   \<and> touchStartX (handleTouchStart \<lparr>clientX = 200, clientY = 0\<rparr> 0 s_gestureB) = 200
   \<and> swipeX (heap (handleTouchMove \<lparr>clientX = 230, clientY = 0\<rparr> 1 s_gestureB) 1) = 122
   \<and> swipeX (heap (handleTouchMove \<lparr>clientX = 230, clientY = 0\<rparr> 1
               (handleTouchStart \<lparr>clientX = 200, clientY = 0\<rparr> 0 s_gestureB)) 1) = 30"
  by (simp add: s_gestureB_def s_two_eq gesture_defs)

text \<open>
  Claim C7, as the code has it. For two tasks with distinct ids, the start, move and
  end handlers (and the reset) called on the first never change a field of the second
  task object: its swipe offset, its active flag and its pending-move flag stay as they
  are. (The lock flag and the start position are shared by all tasks and are written by
  every gesture.)
\<close>

theorem gesture_frame:
  assumes "task_id (heap st a) \<noteq> task_id (heap st b)"
  shows "heap (handleTouchStart e a st) b = heap st b
       \<and> heap (handleTouchMove e a st) b = heap st b
       \<and> heap (handleTouchEnd e a dayIndex st) b = heap st b
       \<and> heap (resetTaskSwipe a st) b = heap st b"
proof -
  from assms have "a \<noteq> b" by auto
  then show ?thesis by (simp add: gesture_defs)
qed

theorem gesture_frame_witness:
  "task_id (heap s_gestureB 0) \<noteq> task_id (heap s_gestureB 1)
   \<and> swipeX (heap (handleTouchStart \<lparr>clientX = 200, clientY = 0\<rparr> 0 s_gestureB) 1) = 100
   \<and> isSwipeActive (heap (handleTouchEnd \<lparr>clientX = 200, clientY = 0\<rparr> 0 0
                             (handleTouchStart \<lparr>clientX = 200, clientY = 0\<rparr> 0 s_gestureB)) 1)"
proof -
  have h: "task_id (heap s_gestureB 0) \<noteq> task_id (heap s_gestureB 1)"
    by (simp add: s_gestureB_def s_two_eq gesture_defs)
  have h': "task_id (heap (handleTouchStart \<lparr>clientX = 200, clientY = 0\<rparr> 0 s_gestureB) 0)
            \<noteq> task_id (heap (handleTouchStart \<lparr>clientX = 200, clientY = 0\<rparr> 0 s_gestureB) 1)"
    by (simp add: s_gestureB_def s_two_eq gesture_defs)
  have b: "swipeX (heap s_gestureB 1) = 100 \<and> isSwipeActive (heap s_gestureB 1)"
    by (simp add: s_gestureB_def s_two_eq gesture_defs)
  from gesture_frame [OF h, of "\<lparr>clientX = 200, clientY = 0\<rparr>" 0]
    gesture_frame [OF h', of "\<lparr>clientX = 200, clientY = 0\<rparr>" 0] h b
  show ?thesis by simp
qed

text \<open>
  Claim C8 as it is stated fails in its last part: the cancel does not take a scheduled
  delete out of the timer queue. In the run \<open>s_ended\<close> (offset 300, delete scheduled) the
  reset leaves the timer where it is; after 200 ms the DELETE request for task 42 is
  issued all the same, and when it is confirmed the task is removed from Monday.
\<close>

theorem cancel_counterexample:
  "timers s_ended = [\<lparr>due = 200, cb_dayIndex = 0, cb_task = 0\<rparr>]
   \<and> swipeX (heap (resetTaskSwipe 0 s_ended) 0) = 0
   \<and> timers (resetTaskSwipe 0 s_ended) = [\<lparr>due = 200, cb_dayIndex = 0, cb_task = 0\<rparr>]
   \<and> requests (advance 200 (resetTaskSwipe 0 s_ended)) =
        requests (resetTaskSwipe 0 s_ended) @ [DELETE_task ''42'']
   \<and> tasks (days (resetTaskSwipe 0 s_ended) ! 0) = [0]
   \<and> tasks (days (deleteTask_resume 0 ''42'' (StatusOk BadJson)
                     (advance 200 (resetTaskSwipe 0 s_ended))) ! 0) = []"
  by (simp add: s_ended_def s_swiped_eq s_task_eq gesture_defs advance_requests advance_heap
        advance_days deleteTask_resume_def upd_day_def)

text \<open>
  Claim C8, as the code has it. From every state, the reset sets the swipe offset of
  the task to 0, clears its pending-move flag and its active flag, and leaves every
  other task object, the days and the timer queue as they are: a delete that an earlier
  gesture end has scheduled stays scheduled.
\<close>

theorem resetTaskSwipe_cancel:
  "swipeX (heap (resetTaskSwipe t st) t) = 0
   \<and> \<not> showMoveOptions (heap (resetTaskSwipe t st) t)
   \<and> \<not> isSwipeActive (heap (resetTaskSwipe t st) t)
   \<and> timers (resetTaskSwipe t st) = timers st
   \<and> days (resetTaskSwipe t st) = days st
   \<and> requests (resetTaskSwipe t st) = requests st"
  by (simp add: resetTaskSwipe_def upd_task_def)

theorem resetTaskSwipe_cancel_witness:
  "swipeX (heap s_ended 0) = 300
   \<and> swipeX (heap (resetTaskSwipe 0 s_ended) 0) = 0
   \<and> timers (resetTaskSwipe 0 s_ended) = timers s_ended"
proof -
  have "swipeX (heap s_ended 0) = 300"
    by (simp add: s_ended_def s_swiped_eq s_task_eq gesture_defs)
  with resetTaskSwipe_cancel [of 0 s_ended] show ?thesis by simp
qed

text \<open>
  Claim C10. A gesture ends on an active task with an offset of at least the delete
  threshold: the offset is set to 300 and the delete is scheduled. When the 200 ms have
  passed the DELETE request is issued. If that request fails (the fetch rejects, or the
  status is not a success), the days are as they were before the gesture ended, so the
  task is still in its bucket, and the offset of the task is still 300; its active flag
  is off and its pending-move flag is what it was.
\<close>

theorem failed_scheduled_delete:
  assumes "isSwipeActive (heap st t)" and "\<not> isEditing (heap st t)"
    and "deleteThreshold \<le> swipeX (heap st t)"
    and "resp = FetchRejected \<or> resp = StatusNotOk"
    and "200 \<le> ms"
  shows
    "(let st1 = handleTouchEnd e t dayIndex st;
          st2 = advance ms st1;
          st3 = deleteTask_resume dayIndex (task_id (heap st t)) resp st2
      in swipeX (heap st1 t) = 300
       \<and> requests st2 = requests (advance ms st) @ [DELETE_task (task_id (heap st t))]
       \<and> days st3 = days st \<and> collections st3 = collections st2
       \<and> task_id (heap st3 t) = task_id (heap st t)
       \<and> swipeX (heap st3 t) = 300
       \<and> \<not> isSwipeActive (heap st3 t)
       \<and> showMoveOptions (heap st3 t) = showMoveOptions (heap st t))"
  using assms
  by (auto simp add: gesture_defs advance_requests advance_heap advance_days
        deleteTask_resume_def collections_def)

theorem failed_scheduled_delete_witness:
  "isSwipeActive (heap s_swiped 0) \<and> deleteThreshold \<le> swipeX (heap s_swiped 0)
   \<and> requests (advance 200 s_ended) = requests s_swiped @ [DELETE_task ''42'']
   \<and> tasks (days (deleteTask_resume 0 ''42'' StatusNotOk (advance 200 s_ended)) ! 0) = [0]
   \<and> swipeX (heap (deleteTask_resume 0 ''42'' StatusNotOk (advance 200 s_ended)) 0) = 300"
proof -
  have h: "isSwipeActive (heap s_swiped 0)" "\<not> isEditing (heap s_swiped 0)"
    "deleteThreshold \<le> swipeX (heap s_swiped 0)"
    "StatusNotOk = FetchRejected \<or> StatusNotOk = StatusNotOk" "(200::nat) \<le> 200"
    by (simp_all add: s_swiped_eq s_task_eq deleteThreshold_def)
  have i: "task_id (heap s_swiped 0) = ''42''" "tasks (days s_swiped ! 0) = [0]"
    "requests (advance 200 s_swiped) = requests s_swiped"
    by (simp_all add: s_swiped_eq s_task_eq advance_requests)
  from failed_scheduled_delete [OF h, of "\<lparr>clientX = 130, clientY = 0\<rparr>" 0] h i
  show ?thesis by (simp add: Let_def s_ended_def)
qed

section \<open>The task operations and the Remote Store\<close>

text \<open>
  Claim C9. A create on a day whose input trims to the empty string (it is empty or
  made of white space only, of any kind that \<^verbatim>\<open>trim\<close> removes) returns before any
  request: the state, and with it every bucket and the request trace, is exactly what it
  was. A rename confirmation whose edited text trims to the empty string issues no
  request either; it leaves edit mode, and the days, and the id, description and
  completed flag of every task object, are what they were.
\<close>

theorem blank_input_short_circuits:
  "(trim (newTaskDescription (days st ! dayIndex)) = [] \<longrightarrow>
      addTask dayIndex resp uuid st = st
    \<and> fst (addTask_start dayIndex st) = None)
   \<and> (trim (editingText (heap st t)) = [] \<longrightarrow>
        fst (saveTaskEdit_start t st) = None
      \<and> requests (saveTaskEdit t resp st) = requests st
      \<and> days (saveTaskEdit t resp st) = days st
      \<and> (\<forall>r. persistent (heap (saveTaskEdit t resp st) r) = persistent (heap st r))
      \<and> persistent_collections (saveTaskEdit t resp st) = persistent_collections st)"
  by (simp add: task_op_defs upd_task_def Let_def persistent_def persistent_collections_def
        collections_def)

text \<open>
  The theorem on two blanks typed into Monday's input and as the edited text of task
  42, and on a no-break space, an em space and a tab in their place, whatever the store
  would have answered.
\<close>

theorem blank_input_short_circuits_witness:
  "trim (newTaskDescription (days s_blank_input ! 0)) = []
   \<and> addTask 0 (StatusOk (Json (IdString ''99''))) ''uuid'' s_blank_input = s_blank_input
   \<and> trim (newTaskDescription (days s_nbsp_input ! 0)) = []
   \<and> addTask 0 (StatusOk (Json (IdString ''99''))) ''uuid'' s_nbsp_input = s_nbsp_input
   \<and> trim (editingText (heap s_blank_edit 0)) = []
   \<and> requests (saveTaskEdit 0 (StatusOk BadJson) s_blank_edit) = requests s_blank_edit
   \<and> description (heap (saveTaskEdit 0 (StatusOk BadJson) s_blank_edit) 0) = js ''Call Bob''
   \<and> trim (editingText (heap s_nbsp_edit 0)) = []
   \<and> requests (saveTaskEdit 0 (StatusOk BadJson) s_nbsp_edit) = requests s_nbsp_edit
   \<and> description (heap (saveTaskEdit 0 (StatusOk BadJson) s_nbsp_edit) 0) = js ''Call Bob''"
proof -
  have a: "trim (newTaskDescription (days s_blank_input ! 0)) = []"
    "trim (newTaskDescription (days s_nbsp_input ! 0)) = []"
    by (simp_all add: s_blank_input_def s_nbsp_input_def s_task_eq input_newTaskDescription_def
          upd_day_def trim_def is_space_def js_def)
  have b: "trim (editingText (heap s_blank_edit 0)) = []"
    "trim (editingText (heap s_nbsp_edit 0)) = []"
    by (simp_all add: s_blank_edit_def s_nbsp_edit_def s_task_eq input_editingText_def
          startEditingTask_def upd_task_def trim_def is_space_def js_def)
  have c: "description (heap s_blank_edit 0) = js ''Call Bob''"
    "description (heap s_nbsp_edit 0) = js ''Call Bob''"
    by (simp_all add: s_blank_edit_def s_nbsp_edit_def s_task_eq input_editingText_def
          startEditingTask_def upd_task_def)
  from blank_input_short_circuits
         [where st = s_blank_input and dayIndex = 0 and uuid = "''uuid''"
            and resp = "StatusOk (Json (IdString ''99''))"]
       blank_input_short_circuits
         [where st = s_nbsp_input and dayIndex = 0 and uuid = "''uuid''"
            and resp = "StatusOk (Json (IdString ''99''))"]
       blank_input_short_circuits [where st = s_blank_edit and t = 0 and resp = "StatusOk BadJson"]
       blank_input_short_circuits [where st = s_nbsp_edit and t = 0 and resp = "StatusOk BadJson"]
       a b c
  show ?thesis by (simp add: persistent_def)
qed

text \<open>
  Claim C2. When the request of a create, a toggle, a rename, a move or a delete fails
  (the fetch rejects, or the status is not a success), every bucket's collection is what
  it was before the call: the same tasks in the same order, and no field of a task
  changed. The fields of a task are those of the data model, its id, its description and
  its completed flag. After a create, a toggle, a move or a delete nothing else of a
  task object changes either. A rename leaves edit mode whatever the response, which is
  the revert of the transient edit state: the days are what they were, and the object
  store differs only in \<^verbatim>\<open>isEditing\<close> and \<^verbatim>\<open>editingText\<close> of the task that was edited.
\<close>

theorem failed_request_preserves:
  assumes "resp = FetchRejected \<or> resp = StatusNotOk"
  shows "persistent_collections (addTask dayIndex resp uuid st) = persistent_collections st
       \<and> persistent_collections (toggleTask dayIndex taskId resp st) = persistent_collections st
       \<and> persistent_collections (saveTaskEdit t resp st) = persistent_collections st
       \<and> persistent_collections (moveTask fromDayIndex t toDayIndex resp st)
           = persistent_collections st
       \<and> persistent_collections (deleteTask dayIndex taskId resp st) = persistent_collections st
       \<and> collections (addTask dayIndex resp uuid st) = collections st
       \<and> collections (toggleTask dayIndex taskId resp st) = collections st
       \<and> collections (moveTask fromDayIndex t toDayIndex resp st) = collections st
       \<and> collections (deleteTask dayIndex taskId resp st) = collections st
       \<and> days (saveTaskEdit t resp st) = days st
       \<and> heap (saveTaskEdit t resp st) =
           (heap st)(t := (heap st t)\<lparr>isEditing := False, editingText := []\<rparr>)"
proof -
  have 1: "collections (addTask dayIndex resp uuid st) = collections st"
    using assms
    by (auto intro!: collections_cong
          simp add: addTask_def addTask_start_def addTask_resume_def Let_def)
  have 2: "collections (toggleTask dayIndex taskId resp st) = collections st"
    using assms
    by (auto intro!: collections_cong
          simp add: toggleTask_def toggleTask_start_def toggleTask_resume_def Let_def
          split: option.splits)
  have 3: "collections (moveTask fromDayIndex t toDayIndex resp st) = collections st"
    using assms
    by (auto intro!: collections_cong
          simp add: moveTask_def moveTask_start_def moveTask_resume_def)
  have 4: "collections (deleteTask dayIndex taskId resp st) = collections st"
    using assms
    by (auto intro!: collections_cong
          simp add: deleteTask_def deleteTask_start_def deleteTask_resume_def)
  have 5: "days (saveTaskEdit t resp st) = days st"
    using assms
    by (auto simp add: saveTaskEdit_def saveTaskEdit_start_def saveTaskEdit_resume_def
          upd_task_def Let_def)
  have 6: "heap (saveTaskEdit t resp st) =
             (heap st)(t := (heap st t)\<lparr>isEditing := False, editingText := []\<rparr>)"
    using assms
    by (auto simp add: saveTaskEdit_def saveTaskEdit_start_def saveTaskEdit_resume_def
          upd_task_def Let_def)
  have 7: "persistent_collections (saveTaskEdit t resp st) = persistent_collections st"
    by (simp add: persistent_collections_def collections_def 5 6 persistent_def)
  from 1 2 3 4 have 8:
    "persistent_collections (addTask dayIndex resp uuid st) = persistent_collections st"
    "persistent_collections (toggleTask dayIndex taskId resp st) = persistent_collections st"
    "persistent_collections (moveTask fromDayIndex t toDayIndex resp st)
       = persistent_collections st"
    "persistent_collections (deleteTask dayIndex taskId resp st) = persistent_collections st"
    by (simp_all add: persistent_collections_def)
  from 1 2 3 4 5 6 7 8 show ?thesis by blast
qed

text \<open>
  The theorem with a store that rejects everything: a create of ``Buy milk'', a toggle,
  a move and a delete of task 42 leave the collections of \<open>s_task\<close> as they are, and a
  rename to ``Call Alice'' leaves Monday with the one task 42, ``Call Bob'', not
  completed.
\<close>

theorem failed_request_preserves_witness:
  "collections (addTask 0 StatusNotOk ''uuid'' (input_newTaskDescription 0 (js ''Buy milk'') s_task))
     = collections s_task
   \<and> collections (toggleTask 0 ''42'' StatusNotOk s_task) = collections s_task
   \<and> collections (moveTask 0 0 1 StatusNotOk s_task) = collections s_task
   \<and> collections (deleteTask 0 ''42'' StatusNotOk s_task) = collections s_task
   \<and> requests (deleteTask 0 ''42'' StatusNotOk s_task) = requests s_task @ [DELETE_task ''42'']
   \<and> persistent_collections (saveTaskEdit 0 StatusNotOk s_editing)
       = [[(''42'', js ''Call Bob'', False)], [], [], [], [], [], [], []]
   \<and> description (heap (saveTaskEdit 0 StatusNotOk s_editing) 0) = js ''Call Bob''
   \<and> requests (saveTaskEdit 0 StatusNotOk s_editing)
       = requests s_editing @ [PUT_text ''42'' (js ''Call Alice'')]"
proof -
  have h: "StatusNotOk = FetchRejected \<or> StatusNotOk = StatusNotOk" by simp
  have a: "collections (input_newTaskDescription 0 (js ''Buy milk'') s_task) = collections s_task"
    by (simp add: s_task_eq input_newTaskDescription_def upd_day_def collections_def)
  have b: "requests (deleteTask 0 ''42'' StatusNotOk s_task)
             = requests s_task @ [DELETE_task ''42'']"
    by (simp add: deleteTask_def deleteTask_start_def deleteTask_resume_def)
  have c: "requests (saveTaskEdit 0 StatusNotOk s_editing)
             = requests s_editing @ [PUT_text ''42'' (js ''Call Alice'')]"
    "description (heap s_editing 0) = js ''Call Bob''"
    "persistent_collections s_editing
       = [[(''42'', js ''Call Bob'', False)], [], [], [], [], [], [], []]"
    by (simp_all add: s_editing_def s_task_eq startEditingTask_def input_editingText_def
          saveTaskEdit_def saveTaskEdit_start_def saveTaskEdit_resume_def upd_task_def
          trim_def is_space_def js_def Let_def persistent_collections_def collections_def
          persistent_def new_day_def)
  from failed_request_preserves
         [OF h, where dayIndex = 0 and uuid = "''uuid''"
            and st = "input_newTaskDescription 0 (js ''Buy milk'') s_task"]
       failed_request_preserves
         [OF h, where dayIndex = 0 and taskId = "''42''" and fromDayIndex = 0 and t = 0
            and toDayIndex = 1 and st = s_task]
       failed_request_preserves [OF h, where t = 0 and st = s_editing]
       a b c
  show ?thesis by simp
qed

text \<open>
  Claim C3 as it is stated fails for the create and for the move: neither looks for the
  id in the bucket before it appends. \<open>s_task\<close> already reflects the confirmed create of
  task 42 on Monday; applying the same confirmed result once more leaves Monday with
  two tasks of id 42. A confirmed move of task 42 from Monday to Tuesday, applied a
  second time to the state that already reflects it, leaves Tuesday with two tasks of
  id 42.
\<close>

theorem reapplied_result_counterexample:
  "bucket_ids s_task 0 = [''42'']
   \<and> collections
        (addTask_resume 0 (js ''Call Bob'') (StatusOk (Json (IdString ''42''))) ''uuid'' s_task)
       \<noteq> collections s_task
   \<and> map (bucket_ids
             (addTask_resume 0 (js ''Call Bob'') (StatusOk (Json (IdString ''42''))) ''uuid'' s_task))
        [0, 1] = [[''42'', ''42''], []]
   \<and> map (bucket_ids (moveTask_resume 0 0 1 (StatusOk BadJson) s_task)) [0, 1]
       = [[], [''42'']]
   \<and> map (bucket_ids (moveTask_resume 0 0 1 (StatusOk BadJson)
                          (moveTask_resume 0 0 1 (StatusOk BadJson) s_task))) [0, 1]
       = [[], [''42'', ''42'']]"
  by (simp add: s_task_eq task_op_defs store_defs collections_def bucket_ids_def new_day_def)

text \<open>
  Claim C3, as the code has it. Applying the result of a delete, of a toggle (the
  completed value that was sent) or of a rename a second time, with the same response,
  gives the state that the first application gave: a confirmed delete, toggle or rename
  applied to a state that already reflects it changes nothing, and neither does a
  failed one. (A create and a move append without looking for the id.)
\<close>

theorem confirmed_result_idempotent:
  "deleteTask_resume dayIndex taskId resp (deleteTask_resume dayIndex taskId resp st)
     = deleteTask_resume dayIndex taskId resp st
   \<and> toggleTask_resume taskObj newCompleted resp (toggleTask_resume taskObj newCompleted resp st)
     = toggleTask_resume taskObj newCompleted resp st
   \<and> saveTaskEdit_resume t newText resp (saveTaskEdit_resume t newText resp st)
     = saveTaskEdit_resume t newText resp st"
  by (cases resp) (simp_all add: task_op_defs upd_task_def upd_day_def Let_def)

theorem confirmed_result_idempotent_witness:
  "tasks (days (deleteTask_resume 0 ''42'' (StatusOk BadJson) s_task) ! 0) = []
   \<and> deleteTask_resume 0 ''42'' (StatusOk BadJson)
        (deleteTask_resume 0 ''42'' (StatusOk BadJson) s_task)
       = deleteTask_resume 0 ''42'' (StatusOk BadJson) s_task
   \<and> completed (heap (toggleTask_resume 0 True (StatusOk BadJson) s_task) 0)
   \<and> toggleTask_resume 0 True (StatusOk BadJson)
        (toggleTask_resume 0 True (StatusOk BadJson) s_task)
       = toggleTask_resume 0 True (StatusOk BadJson) s_task"
proof -
  have a: "tasks (days (deleteTask_resume 0 ''42'' (StatusOk BadJson) s_task) ! 0) = []"
    "completed (heap (toggleTask_resume 0 True (StatusOk BadJson) s_task) 0)"
    by (simp_all add: s_task_eq deleteTask_resume_def toggleTask_resume_def upd_day_def
          upd_task_def)
  from confirmed_result_idempotent
         [where dayIndex = 0 and taskId = "''42''" and resp = "StatusOk BadJson" and st = s_task
            and taskObj = 0 and newCompleted = True]
       a
  show ?thesis by simp
qed

section \<open>Every task id is in exactly one bucket\<close>

subsection \<open>Lists of lists without a repeated element\<close>

lemma disjoint_Cons_nth:
  "(\<forall>i < length (xs # xss). \<forall>j < length (xs # xss).
      i \<noteq> j \<longrightarrow> set ((xs # xss) ! i) \<inter> set ((xs # xss) ! j) = {})
   \<longleftrightarrow> (\<forall>j < length xss. set xs \<inter> set (xss ! j) = {})
     \<and> (\<forall>i < length xss. \<forall>j < length xss.
           i \<noteq> j \<longrightarrow> set (xss ! i) \<inter> set (xss ! j) = {})"
  (is "?L \<longleftrightarrow> ?R1 \<and> ?R2")
proof
  assume l: ?L
  have "?R1"
  proof (intro allI impI)
    fix j assume "j < length xss"
    with l[rule_format, of 0 "Suc j"] show "set xs \<inter> set (xss ! j) = {}" by simp
  qed
  moreover have "?R2"
  proof (intro allI impI)
    fix i j assume "i < length xss" "j < length xss" "i \<noteq> j"
    with l[rule_format, of "Suc i" "Suc j"] show "set (xss ! i) \<inter> set (xss ! j) = {}" by simp
  qed
  ultimately show "?R1 \<and> ?R2" ..
next
  assume r: "?R1 \<and> ?R2"
  show ?L
  proof (intro allI impI)
    fix i j assume ij: "i < length (xs # xss)" "j < length (xs # xss)" "i \<noteq> j"
    show "set ((xs # xss) ! i) \<inter> set ((xs # xss) ! j) = {}"
    proof (cases i)
      case 0
      with ij obtain j' where "j = Suc j'" "j' < length xss" by (cases j) auto
      with 0 r show ?thesis by simp
    next
      case (Suc i')
      show ?thesis
      proof (cases j)
        case 0
        with Suc ij r have "set xs \<inter> set (xss ! i') = {}" by simp
        with 0 Suc show ?thesis by (simp add: Int_commute)
      next
        case (Suc j')
        with \<open>i = Suc i'\<close> ij r show ?thesis by simp
      qed
    qed
  qed
qed

lemma distinct_Cons_nth:
  "(\<forall>i < length (xs # xss). distinct ((xs # xss) ! i))
     \<longleftrightarrow> distinct xs \<and> (\<forall>i < length xss. distinct (xss ! i))"
  by (simp add: All_less_Suc2)

lemma disjoint_Union_nth:
  "set xs \<inter> \<Union> (set ` set xss) = {} \<longleftrightarrow> (\<forall>j < length xss. set xs \<inter> set (xss ! j) = {})"
proof
  assume l: "set xs \<inter> \<Union> (set ` set xss) = {}"
  show "\<forall>j < length xss. set xs \<inter> set (xss ! j) = {}"
  proof (intro allI impI)
    fix j assume "j < length xss"
    then have "set (xss ! j) \<subseteq> \<Union> (set ` set xss)" by (meson UN_upper nth_mem)
    with l show "set xs \<inter> set (xss ! j) = {}" by blast
  qed
next
  assume r: "\<forall>j < length xss. set xs \<inter> set (xss ! j) = {}"
  show "set xs \<inter> \<Union> (set ` set xss) = {}"
  proof (rule ccontr)
    assume "set xs \<inter> \<Union> (set ` set xss) \<noteq> {}"
    then obtain x ys where x: "x \<in> set xs" "ys \<in> set xss" "x \<in> set ys" by blast
    from x(2) obtain j where "j < length xss" "xss ! j = ys" by (auto simp add: in_set_conv_nth)
    with r x show False by blast
  qed
qed

lemma distinct_concat_nth:
  "distinct (concat xss) \<longleftrightarrow>
     (\<forall>i < length xss. distinct (xss ! i))
     \<and> (\<forall>i < length xss. \<forall>j < length xss. i \<noteq> j \<longrightarrow> set (xss ! i) \<inter> set (xss ! j) = {})"
proof (induction xss)
  case Nil
  then show ?case by simp
next
  case (Cons xs xss)
  have "distinct (concat (xs # xss)) \<longleftrightarrow>
          distinct xs \<and> distinct (concat xss) \<and> set xs \<inter> \<Union> (set ` set xss) = {}"
    by simp
  also have "\<dots> \<longleftrightarrow> (distinct xs \<and> (\<forall>i < length xss. distinct (xss ! i)))
         \<and> ((\<forall>j < length xss. set xs \<inter> set (xss ! j) = {})
           \<and> (\<forall>i < length xss. \<forall>j < length xss.
                 i \<noteq> j \<longrightarrow> set (xss ! i) \<inter> set (xss ! j) = {}))"
    unfolding Cons.IH disjoint_Union_nth by blast
  finally show ?case
    unfolding distinct_Cons_nth disjoint_Cons_nth .
qed

lemma distinct_all_ids: "distinct (all_ids st) \<longleftrightarrow> ids_unique st"
  by (simp add: all_ids_def ids_unique_def distinct_concat_nth)

lemma set_all_ids: "set (all_ids st) = (\<Union>k < length (days st). set (bucket_ids st k))"
  by (auto simp add: all_ids_def)

subsection \<open>Steps that keep the ids where they are\<close>

lemma same_ids_length: "same_ids st st' \<Longrightarrow> length (days st') = length (days st)"
  unfolding same_ids_def by (metis length_map)

lemma same_ids_tasks:
  "same_ids st st' \<Longrightarrow> k < length (days st) \<Longrightarrow> tasks (days st' ! k) = tasks (days st ! k)"
proof -
  assume s: "same_ids st st'" and k: "k < length (days st)"
  from s have m: "map tasks (days st') = map tasks (days st)" by (simp add: same_ids_def)
  from s k have k': "k < length (days st')" by (simp add: same_ids_length)
  from k' have "tasks (days st' ! k) = map tasks (days st') ! k" by simp
  also from m have "\<dots> = map tasks (days st) ! k" by simp
  also from k have "\<dots> = tasks (days st ! k)" by simp
  finally show ?thesis .
qed

lemma same_ids_bucket_ids:
  "same_ids st st' \<Longrightarrow> k < length (days st) \<Longrightarrow> bucket_ids st' k = bucket_ids st k"
  by (simp add: bucket_ids_def same_ids_tasks) (simp add: same_ids_def)

lemma same_ids_refs_allocated:
  "same_ids st st' \<Longrightarrow> refs_allocated st \<Longrightarrow> refs_allocated st'"
  by (simp add: refs_allocated_def same_ids_length same_ids_tasks) (simp add: same_ids_def)

lemma same_ids_ids_unique: "same_ids st st' \<Longrightarrow> ids_unique st \<Longrightarrow> ids_unique st'"
  by (simp add: ids_unique_def same_ids_length same_ids_bucket_ids)

lemma same_ids_refl: "same_ids st st"
  by (simp add: same_ids_def)

lemma same_ids_upd_task:
  "(\<And>x. task_id (f x) = task_id x) \<Longrightarrow> same_ids st (upd_task r f st)"
  by (simp add: same_ids_def upd_task_def)

lemma map_update_same: "(map f xs)[i := f (xs ! i)] = map f xs"
  by (simp add: map_update [symmetric])

lemma same_ids_simple:
  "same_ids st (input_newTaskDescription dayIndex s st)"
  "same_ids st (snd (addTask_start dayIndex st))"
  "same_ids st (deleteTask_start taskId st)"
  "same_ids st (snd (toggleTask_start dayIndex taskId st))"
  "same_ids st (toggleTask_resume taskObj newCompleted resp st)"
  "same_ids st (snd (moveTask_start fromDayIndex t toDayIndex st))"
  "same_ids st (startEditingTask t st)"
  "same_ids st (input_editingText t s st)"
  "same_ids st (cancelTaskEdit t st)"
  "same_ids st (snd (saveTaskEdit_start t st))"
  "same_ids st (saveTaskEdit_resume t newText resp st)"
  "same_ids st (resetTaskSwipe t st)"
  "same_ids st (advance ms st)"
  "same_ids st (mouse_hover t b st)"
  "same_ids st (set_popoverOpen t b st)"
  "same_ids st (onMount_start i st)"
proof -
  show "same_ids st (input_newTaskDescription dayIndex s st)"
    by (simp add: same_ids_def input_newTaskDescription_def upd_day_def map_update
          map_update_same)
  show "same_ids st (snd (addTask_start dayIndex st))"
    by (simp add: same_ids_def addTask_start_def Let_def)
  show "same_ids st (deleteTask_start taskId st)"
    by (simp add: same_ids_def deleteTask_start_def)
  show "same_ids st (snd (toggleTask_start dayIndex taskId st))"
    by (simp add: same_ids_def toggleTask_start_def Let_def split: option.splits)
  show "same_ids st (toggleTask_resume taskObj newCompleted resp st)"
    by (cases resp) (simp_all add: same_ids_def toggleTask_resume_def upd_task_def)
  show "same_ids st (snd (moveTask_start fromDayIndex t toDayIndex st))"
    by (simp add: same_ids_def moveTask_start_def)
  show "same_ids st (startEditingTask t st)"
    by (simp add: same_ids_def startEditingTask_def upd_task_def)
  show "same_ids st (input_editingText t s st)"
    by (simp add: same_ids_def input_editingText_def upd_task_def)
  show "same_ids st (cancelTaskEdit t st)"
    by (simp add: same_ids_def cancelTaskEdit_def upd_task_def)
  show "same_ids st (snd (saveTaskEdit_start t st))"
    by (simp add: same_ids_def saveTaskEdit_start_def upd_task_def Let_def)
  show "same_ids st (saveTaskEdit_resume t newText resp st)"
    by (cases resp) (simp_all add: same_ids_def saveTaskEdit_resume_def upd_task_def Let_def)
  show "same_ids st (resetTaskSwipe t st)"
    by (simp add: same_ids_def resetTaskSwipe_def upd_task_def)
  show "same_ids st (advance ms st)"
    by (simp add: same_ids_def advance_heap advance_days advance_nextRef)
  show "same_ids st (mouse_hover t b st)"
    by (simp add: same_ids_def mouse_hover_def)
  show "same_ids st (set_popoverOpen t b st)"
    by (simp add: same_ids_def set_popoverOpen_def upd_task_def)
  show "same_ids st (onMount_start i st)"
    by (simp add: same_ids_def onMount_start_def)
qed

lemma same_ids_touch:
  "same_ids st (handleTouchStart e t st)"
  "same_ids st (handleTouchMove e t st)"
  "same_ids st (handleTouchEnd e t dayIndex st)"
  by (simp_all add: same_ids_def handleTouchStart_def handleTouchMove_def handleTouchEnd_def
        setTimeout_def upd_task_def Let_def)

subsection \<open>Removing from a bucket\<close>

lemma bucket_ids_filter:
  assumes "i < length (days st)" and "k < length (days st)"
  shows "bucket_ids
           (upd_day i (\<lambda>d. d\<lparr>tasks := filter (\<lambda>r. task_id (heap st r) \<noteq> x) (tasks d)\<rparr>) st) k
         = (if k = i then filter (\<lambda>y. y \<noteq> x) (bucket_ids st i) else bucket_ids st k)"
  using assms by (simp add: bucket_ids_def upd_day_def filter_map comp_def)

lemma ids_unique_shrink:
  assumes "ids_unique st" and "length (days st') = length (days st)"
    and "\<And>k. k < length (days st) \<Longrightarrow> bucket_ids st' k = filter (P k) (bucket_ids st k)"
  shows "ids_unique st'"
proof -
  have sub: "set (bucket_ids st' k) \<subseteq> set (bucket_ids st k)" if "k < length (days st)" for k
    using assms(3)[OF that] by auto
  have dis: "distinct (bucket_ids st' k)" if "k < length (days st)" for k
    using assms(3)[OF that] assms(1) that by (auto simp add: ids_unique_def)
  show ?thesis
    unfolding ids_unique_def assms(2)
  proof (intro conjI allI impI)
    fix i assume "i < length (days st)"
    then show "distinct (bucket_ids st' i)" by (rule dis)
  next
    fix i j assume ij: "i < length (days st)" "j < length (days st)" "i \<noteq> j"
    with assms(1) have "set (bucket_ids st i) \<inter> set (bucket_ids st j) = {}"
      by (simp add: ids_unique_def)
    with sub[OF ij(1)] sub[OF ij(2)]
    show "set (bucket_ids st' i) \<inter> set (bucket_ids st' j) = {}" by blast
  qed
qed

lemma filter_day_inv:
  assumes "i < length (days st)" and "refs_allocated st" and "ids_unique st"
    and "st' = upd_day i (\<lambda>d. d\<lparr>tasks := filter (\<lambda>r. task_id (heap st r) \<noteq> x) (tasks d)\<rparr>) st"
  shows "refs_allocated st'" and "ids_unique st'"
proof -
  have len: "length (days st') = length (days st)"
    by (simp add: assms(4) upd_day_def)
  have "bucket_ids st' k = filter (\<lambda>y. k = i \<longrightarrow> y \<noteq> x) (bucket_ids st k)"
    if "k < length (days st)" for k
    using bucket_ids_filter [OF assms(1) that, of x] unfolding assms(4) by simp
  with assms(3) len show "ids_unique st'"
    by (rule ids_unique_shrink)
  have nr: "nextRef st' = nextRef st"
    by (simp add: assms(4) upd_day_def)
  show "refs_allocated st'"
    unfolding refs_allocated_def len nr
  proof (intro allI impI ballI)
    fix k r assume k: "k < length (days st)" and r: "r \<in> set (tasks (days st' ! k))"
    have "set (tasks (days st' ! k)) \<subseteq> set (tasks (days st ! k))"
      using k by (cases "k = i") (auto simp add: assms(4) upd_day_def)
    with r assms(2) k show "r < nextRef st"
      by (auto simp add: refs_allocated_def)
  qed
qed

subsection \<open>Appending a new object to a bucket\<close>

lemma bucket_ids_push:
  assumes "refs_allocated st" and "k < length (days st)"
  shows "bucket_ids (push_task i x st) k
         = (if k = i then bucket_ids st k @ [task_id x] else bucket_ids st k)"
proof -
  have old: "map (\<lambda>r. task_id (((heap st)(nextRef st := x)) r)) (tasks (days st ! k))
             = map (\<lambda>r. task_id (heap st r)) (tasks (days st ! k))"
  proof (rule map_cong [OF refl])
    fix r assume "r \<in> set (tasks (days st ! k))"
    with assms have "r < nextRef st" by (simp add: refs_allocated_def)
    then show "task_id (((heap st)(nextRef st := x)) r) = task_id (heap st r)" by simp
  qed
  show ?thesis
    using assms(2) old by (simp add: bucket_ids_def push_task_def upd_day_def Let_def)
qed

lemma push_inv:
  assumes "refs_allocated st" and "ids_unique st" and "task_id x \<notin> set (all_ids st)"
  shows "refs_allocated (push_task i x st)" and "ids_unique (push_task i x st)"
proof -
  let ?st' = "push_task i x st"
  have len: "length (days ?st') = length (days st)"
    by (simp add: push_task_def upd_day_def Let_def)
  have nr: "nextRef ?st' = Suc (nextRef st)"
    by (simp add: push_task_def upd_day_def Let_def)
  have fresh: "task_id x \<notin> set (bucket_ids st k)" if "k < length (days st)" for k
    using assms(3) that by (auto simp add: set_all_ids)
  show "refs_allocated ?st'"
    unfolding refs_allocated_def len nr
  proof (intro allI impI ballI)
    fix k r assume k: "k < length (days st)" and r: "r \<in> set (tasks (days ?st' ! k))"
    have "set (tasks (days ?st' ! k)) \<subseteq> insert (nextRef st) (set (tasks (days st ! k)))"
      using k by (cases "k = i") (auto simp add: push_task_def upd_day_def Let_def)
    with r assms(1) k show "r < Suc (nextRef st)"
      by (auto simp add: refs_allocated_def less_Suc_eq)
  qed
  show "ids_unique ?st'"
    unfolding ids_unique_def len
  proof (intro conjI allI impI)
    fix k assume k: "k < length (days st)"
    with assms(2) have "distinct (bucket_ids st k)" by (simp add: ids_unique_def)
    with fresh[OF k] show "distinct (bucket_ids ?st' k)"
      by (auto simp add: bucket_ids_push [OF assms(1) k])
  next
    fix k j assume kj: "k < length (days st)" "j < length (days st)" "k \<noteq> j"
    with assms(2) have "set (bucket_ids st k) \<inter> set (bucket_ids st j) = {}"
      by (simp add: ids_unique_def)
    with fresh[OF kj(1)] fresh[OF kj(2)] kj(3)
    show "set (bucket_ids ?st' k) \<inter> set (bucket_ids ?st' j) = {}"
      by (auto simp add: bucket_ids_push [OF assms(1) kj(1)] bucket_ids_push [OF assms(1) kj(2)])
  qed
qed

lemma addTask_resume_inv:
  assumes "refs_allocated st" and "ids_unique st"
    and "\<forall>i. resp = StatusOk (Json i) \<longrightarrow> id_or_uuid i uuid \<notin> set (all_ids st)"
  shows "refs_allocated (addTask_resume dayIndex desc resp uuid st)
       \<and> ids_unique (addTask_resume dayIndex desc resp uuid st)"
proof (cases "\<exists>i. resp = StatusOk (Json i)")
  case False
  then have "addTask_resume dayIndex desc resp uuid st = st"
    by (auto simp add: addTask_resume_def split: response.splits body.splits)
  with assms show ?thesis by simp
next
  case True
  then obtain i where resp: "resp = StatusOk (Json i)" ..
  define x where "x = \<lparr>task_id = id_or_uuid i uuid, description = desc, completed = False,
                popoverOpen = False, isEditing = False, editingText = [], swipeX = 0,
                isSwipeActive = False, showMoveOptions = False\<rparr>"
  have fresh: "task_id x \<notin> set (all_ids st)"
    using assms(3) resp by (simp add: x_def)
  have eq: "addTask_resume dayIndex desc resp uuid st
            = upd_day dayIndex (\<lambda>d. d\<lparr>newTaskDescription := []\<rparr>) (push_task dayIndex x st)"
    by (simp add: addTask_resume_def resp x_def)
  have "same_ids (push_task dayIndex x st)
          (upd_day dayIndex (\<lambda>d. d\<lparr>newTaskDescription := []\<rparr>) (push_task dayIndex x st))"
    by (simp add: same_ids_def upd_day_def map_update map_update_same)
  with push_inv [OF assms(1,2) fresh, of dayIndex] show ?thesis
    unfolding eq by (blast intro: same_ids_refs_allocated same_ids_ids_unique)
qed

lemma deleteTask_resume_inv:
  assumes "refs_allocated st" and "ids_unique st"
  shows "refs_allocated (deleteTask_resume dayIndex taskId resp st)
       \<and> ids_unique (deleteTask_resume dayIndex taskId resp st)"
proof (cases "(\<exists>b. resp = StatusOk b) \<and> dayIndex < length (days st)")
  case False
  then have "deleteTask_resume dayIndex taskId resp st = st"
    by (auto simp add: deleteTask_resume_def split: response.splits)
  with assms show ?thesis by simp
next
  case True
  then obtain b where resp: "resp = StatusOk b" and d: "dayIndex < length (days st)" by blast
  define st1 where "st1 = upd_day dayIndex
      (\<lambda>d. d\<lparr>tasks := filter (\<lambda>r. task_id (heap st r) \<noteq> taskId) (tasks d)\<rparr>) st"
  have eq: "deleteTask_resume dayIndex taskId resp st
            = st1\<lparr>taskHoverState := (taskHoverState st)(taskId := None)\<rparr>"
    by (simp add: deleteTask_resume_def resp d st1_def)
  have "same_ids st1 (st1\<lparr>taskHoverState := (taskHoverState st)(taskId := None)\<rparr>)"
    by (simp add: same_ids_def)
  with filter_day_inv [OF d assms st1_def] show ?thesis
    unfolding eq by (blast intro: same_ids_refs_allocated same_ids_ids_unique)
qed

lemma moveTask_resume_inv:
  assumes "refs_allocated st" and "ids_unique st"
    and "\<forall>b. resp = StatusOk b \<longrightarrow>
           fromDayIndex < length (days st) \<and> t \<in> set (tasks (days st ! fromDayIndex))"
  shows "refs_allocated (moveTask_resume fromDayIndex t toDayIndex resp st)
       \<and> ids_unique (moveTask_resume fromDayIndex t toDayIndex resp st)"
proof (cases "\<exists>b. resp = StatusOk b")
  case False
  then have "moveTask_resume fromDayIndex t toDayIndex resp st = st"
    by (auto simp add: moveTask_resume_def split: response.splits)
  with assms show ?thesis by simp
next
  case True
  then obtain b where resp: "resp = StatusOk b" ..
  with assms(3) have f: "fromDayIndex < length (days st)"
    and t: "t \<in> set (tasks (days st ! fromDayIndex))" by auto
  define tid where "tid = task_id (heap st t)"
  define st1 where "st1 = upd_day fromDayIndex
      (\<lambda>d. d\<lparr>tasks := filter (\<lambda>r. task_id (heap st r) \<noteq> tid) (tasks d)\<rparr>) st"
  note inv1 = filter_day_inv [OF f assms(1,2) st1_def]
  have len1: "length (days st1) = length (days st)" and heap1: "heap st1 = heap st"
    by (simp_all add: st1_def upd_day_def)
  define x where "x = \<lparr>task_id = task_id (heap st1 t), description = description (heap st1 t),
                     completed = completed (heap st1 t), popoverOpen = False, isEditing = False,
                     editingText = [], swipeX = 0, isSwipeActive = False,
                     showMoveOptions = False\<rparr>"
  have eq: "moveTask_resume fromDayIndex t toDayIndex resp st
            = (if toDayIndex < length (days st1) then push_task toDayIndex x st1 else st1)"
    by (simp add: moveTask_resume_def resp f st1_def tid_def x_def Let_def)
  have tid_in: "tid \<in> set (bucket_ids st fromDayIndex)"
    using t by (auto simp add: bucket_ids_def tid_def)
  have "tid \<notin> set (bucket_ids st1 k)" if k: "k < length (days st)" for k
  proof (cases "k = fromDayIndex")
    case True
    then show ?thesis
      using bucket_ids_filter [OF f k, of tid] by (simp add: st1_def)
  next
    case False
    with assms(2) k f have "set (bucket_ids st k) \<inter> set (bucket_ids st fromDayIndex) = {}"
      by (simp add: ids_unique_def)
    with tid_in have "tid \<notin> set (bucket_ids st k)" by blast
    with False show ?thesis
      using bucket_ids_filter [OF f k, of tid] by (simp add: st1_def)
  qed
  then have "task_id x \<notin> set (all_ids st1)"
    by (auto simp add: set_all_ids len1 x_def heap1 tid_def)
  from push_inv [OF inv1 this, of toDayIndex] inv1 show ?thesis
    unfolding eq by simp
qed

subsection \<open>Loading a bucket\<close>

lemma bucket_ids_clear:
  assumes "k < length (days st)"
  shows "bucket_ids (upd_day i (\<lambda>d. d\<lparr>tasks := []\<rparr>) st) k
         = filter (\<lambda>y. k \<noteq> i) (bucket_ids st k)"
  using assms by (cases "k = i") (simp_all add: bucket_ids_def upd_day_def)

lemma clear_day_inv:
  assumes "refs_allocated st" and "ids_unique st"
  shows "refs_allocated (upd_day i (\<lambda>d. d\<lparr>tasks := []\<rparr>) st)
       \<and> ids_unique (upd_day i (\<lambda>d. d\<lparr>tasks := []\<rparr>) st)"
proof -
  let ?st' = "upd_day i (\<lambda>d. d\<lparr>tasks := []\<rparr>) st"
  have len: "length (days ?st') = length (days st)" and nr: "nextRef ?st' = nextRef st"
    by (simp_all add: upd_day_def)
  have "ids_unique ?st'"
    using assms(2) len by (rule ids_unique_shrink) (rule bucket_ids_clear)
  moreover have "refs_allocated ?st'"
    unfolding refs_allocated_def len nr
  proof (intro allI impI ballI)
    fix k r assume k: "k < length (days st)" and r: "r \<in> set (tasks (days ?st' ! k))"
    have "set (tasks (days ?st' ! k)) \<subseteq> set (tasks (days st ! k))"
      using k by (cases "k = i") (auto simp add: upd_day_def)
    with r assms(1) k show "r < nextRef st"
      by (auto simp add: refs_allocated_def)
  qed
  ultimately show ?thesis by simp
qed

lemma assign_tasks_bucket_ids:
  assumes "refs_allocated st" and "k < length (days st)"
  shows "bucket_ids (assign_tasks i ts st) k
         = (if k = i then map task_id ts else bucket_ids st k)"
proof (cases "k = i")
  case True
  have "map (\<lambda>a. task_id (if nextRef st \<le> a \<and> a < nextRef st + length ts
                            then ts ! (a - nextRef st) else heap st a))
          [nextRef st..<nextRef st + length ts]
        = map task_id ts"
    by (rule nth_equalityI) simp_all
  with True assms(2) show ?thesis
    by (simp add: bucket_ids_def assign_tasks_def upd_day_def Let_def)
next
  case False
  have "map (\<lambda>a. task_id (if nextRef st \<le> a \<and> a < nextRef st + length ts
                            then ts ! (a - nextRef st) else heap st a))
          (tasks (days st ! k))
        = map (\<lambda>a. task_id (heap st a)) (tasks (days st ! k))"
  proof (rule map_cong [OF refl])
    fix a assume "a \<in> set (tasks (days st ! k))"
    with assms have "a < nextRef st" by (simp add: refs_allocated_def)
    then show "task_id (if nextRef st \<le> a \<and> a < nextRef st + length ts
                        then ts ! (a - nextRef st) else heap st a)
               = task_id (heap st a)" by simp
  qed
  with False assms(2) show ?thesis
    by (simp add: bucket_ids_def assign_tasks_def upd_day_def Let_def)
qed

lemma assign_tasks_inv:
  assumes "refs_allocated st" and "ids_unique st"
    and "distinct (map task_id ts)"
    and "\<forall>k < length (days st). k \<noteq> i \<longrightarrow> set (map task_id ts) \<inter> set (bucket_ids st k) = {}"
  shows "refs_allocated (assign_tasks i ts st) \<and> ids_unique (assign_tasks i ts st)"
proof -
  let ?st' = "assign_tasks i ts st"
  have len: "length (days ?st') = length (days st)"
    and nr: "nextRef ?st' = nextRef st + length ts"
    by (simp_all add: assign_tasks_def upd_day_def Let_def)
  have ra: "refs_allocated ?st'"
    unfolding refs_allocated_def len nr
  proof (intro allI impI ballI)
    fix k r assume k: "k < length (days st)" and r: "r \<in> set (tasks (days ?st' ! k))"
    show "r < nextRef st + length ts"
    proof (cases "k = i")
      case True
      with k r show ?thesis by (simp add: assign_tasks_def upd_day_def Let_def)
    next
      case False
      with k r have "r \<in> set (tasks (days st ! k))"
        by (simp add: assign_tasks_def upd_day_def Let_def)
      with assms(1) k have "r < nextRef st" by (simp add: refs_allocated_def)
      then show ?thesis by simp
    qed
  qed
  have iu: "ids_unique ?st'"
    unfolding ids_unique_def len
  proof (intro conjI allI impI)
    fix k assume k: "k < length (days st)"
    with assms(2) have "distinct (bucket_ids st k)" by (simp add: ids_unique_def)
    with assms(3) show "distinct (bucket_ids ?st' k)"
      by (simp add: assign_tasks_bucket_ids [OF assms(1) k])
  next
    fix k j assume kj: "k < length (days st)" "j < length (days st)" "k \<noteq> j"
    with assms(2) have d: "set (bucket_ids st k) \<inter> set (bucket_ids st j) = {}"
      by (simp add: ids_unique_def)
    from assms(4) kj
    have a: "k \<noteq> i \<Longrightarrow> set (map task_id ts) \<inter> set (bucket_ids st k) = {}"
      and b: "j \<noteq> i \<Longrightarrow> set (map task_id ts) \<inter> set (bucket_ids st j) = {}"
      by simp_all
    show "set (bucket_ids ?st' k) \<inter> set (bucket_ids ?st' j) = {}"
      unfolding assign_tasks_bucket_ids [OF assms(1) kj(1)]
        assign_tasks_bucket_ids [OF assms(1) kj(2)]
      using kj(3) d a b by (auto simp add: Int_commute)
  qed
  from ra iu show ?thesis ..
qed

lemma task_id_row_tasks:
  "map task_id (map (\<lambda>k. row_task (rows ! k) (uuids k)) [0..<length rows])
   = loaded_ids rows uuids"
  by (simp add: loaded_ids_def row_task_def)

lemma onMount_resume_inv:
  assumes "refs_allocated st" and "ids_unique st"
    and "in_order (OnMount_response i resp uuids) st"
  shows "refs_allocated (onMount_resume i resp uuids st)
       \<and> ids_unique (onMount_resume i resp uuids st)"
proof (cases "\<exists>rows. resp = GetOk (GetRows rows)")
  case False
  then have "onMount_resume i resp uuids st = st
             \<or> onMount_resume i resp uuids st = upd_day i (\<lambda>d. d\<lparr>tasks := []\<rparr>) st"
    by (auto simp add: onMount_resume_def split: get_response.splits get_body.splits)
  with assms(1,2) clear_day_inv [OF assms(1,2), of i] show ?thesis by auto
next
  case True
  then obtain rows where resp: "resp = GetOk (GetRows rows)" ..
  with assms(3) have
    "distinct (loaded_ids rows uuids)"
    "\<forall>k < length (days st).
        k \<noteq> i \<longrightarrow> set (loaded_ids rows uuids) \<inter> set (bucket_ids st k) = {}"
    by simp_all
  then show ?thesis
    unfolding resp onMount_resume_def
    using assign_tasks_inv [OF assms(1,2), of "map (\<lambda>k. row_task (rows ! k) (uuids k)) [0..<length rows]" i]
    by (simp add: task_id_row_tasks del: map_map)
qed

subsection \<open>Runs in order\<close>

lemma apply_event_inv:
  assumes "in_order e st" and "refs_allocated st" and "ids_unique st"
  shows "refs_allocated (apply_event e st) \<and> ids_unique (apply_event e st)"
proof (cases e)
  case (AddTask_response dayIndex desc resp uuid)
  with assms(1)
  have "\<forall>i. resp = StatusOk (Json i) \<longrightarrow> id_or_uuid i uuid \<notin> set (all_ids st)"
    by auto
  with assms(2,3) AddTask_response show ?thesis
    by (simp add: addTask_resume_inv)
next
  case (DeleteTask_response dayIndex taskId resp)
  with assms(2,3) show ?thesis
    by (simp add: deleteTask_resume_inv)
next
  case (MoveTask_response fromDayIndex t toDayIndex resp)
  with assms(1)
  have "\<forall>b. resp = StatusOk b \<longrightarrow>
          fromDayIndex < length (days st) \<and> t \<in> set (tasks (days st ! fromDayIndex))"
    by auto
  with assms(2,3) MoveTask_response show ?thesis
    by (simp add: moveTask_resume_inv)
next
  case (OnMount_response i resp uuids)
  with assms show ?thesis
    by (simp add: onMount_resume_inv)
qed (use assms(2,3) in \<open>simp;
      blast intro: same_ids_refs_allocated same_ids_ids_unique same_ids_simple same_ids_touch\<close>)+

lemma run_inv:
  assumes "in_order_run evs st" and "refs_allocated st" and "ids_unique st"
  shows "refs_allocated (run evs st) \<and> ids_unique (run evs st)"
  using assms
proof (induction evs arbitrary: st)
  case Nil
  then show ?case by (simp add: run_def)
next
  case (Cons e es)
  from Cons.prems have "refs_allocated (apply_event e st) \<and> ids_unique (apply_event e st)"
    by (simp add: apply_event_inv)
  with Cons.prems Cons.IH [of "apply_event e st"] show ?case
    by (simp add: run_def)
qed

subsection \<open>What a confirmed operation does to the buckets\<close>

lemma same_ids_all_ids:
  assumes "same_ids st st'"
  shows "all_ids st' = all_ids st"
proof -
  have "map (bucket_ids st') [0..<length (days st)] = map (bucket_ids st) [0..<length (days st)]"
    by (rule map_cong [OF refl]) (simp add: same_ids_bucket_ids [OF assms])
  then have "concat (map (bucket_ids st') [0..<length (days st)])
             = concat (map (bucket_ids st) [0..<length (days st)])"
    by (rule arg_cong)
  then show ?thesis
    unfolding all_ids_def same_ids_length [OF assms] .
qed

lemma all_ids_start:
  "all_ids (snd (addTask_start dayIndex st)) = all_ids st"
  "all_ids (snd (moveTask_start fromDayIndex t toDayIndex st)) = all_ids st"
  by (simp_all add: same_ids_all_ids same_ids_simple)

lemma exactly_one_bucket:
  assumes "ids_unique st" and "x \<in> set (all_ids st)"
  shows "\<exists>!i. i < length (days st) \<and> x \<in> set (bucket_ids st i)"
proof -
  from assms(2) obtain i where i: "i < length (days st)" "x \<in> set (bucket_ids st i)"
    by (auto simp add: set_all_ids)
  show ?thesis
  proof (rule ex1I [of _ i])
    from i show "i < length (days st) \<and> x \<in> set (bucket_ids st i)" by simp
  next
    fix j assume j: "j < length (days st) \<and> x \<in> set (bucket_ids st j)"
    show "j = i"
    proof (rule ccontr)
      assume "j \<noteq> i"
      with assms(1) i(1) j have "set (bucket_ids st j) \<inter> set (bucket_ids st i) = {}"
        by (simp add: ids_unique_def)
      with i(2) j show False by blast
    qed
  qed
qed

lemma moveTask_resume_buckets:
  assumes "refs_allocated st" and "f < length (days st)" and "to < length (days st)"
    and "k < length (days st)" and "to \<noteq> f"
  shows "bucket_ids (moveTask_resume f t to (StatusOk b) st) k
         = (if k = to then bucket_ids st to @ [task_id (heap st t)]
            else if k = f then filter (\<lambda>y. y \<noteq> task_id (heap st t)) (bucket_ids st f)
            else bucket_ids st k)"
proof -
  define st1 where "st1 = upd_day f
      (\<lambda>d. d\<lparr>tasks := filter (\<lambda>r. task_id (heap st r) \<noteq> task_id (heap st t)) (tasks d)\<rparr>) st"
  have len1: "length (days st1) = length (days st)" and heap1: "heap st1 = heap st"
    by (simp_all add: st1_def upd_day_def)
  have nr1: "nextRef st1 = nextRef st"
    by (simp add: st1_def upd_day_def)
  have ra1: "refs_allocated st1"
    unfolding refs_allocated_def len1 nr1
  proof (intro allI impI ballI)
    fix j r assume j: "j < length (days st)" and r: "r \<in> set (tasks (days st1 ! j))"
    have "set (tasks (days st1 ! j)) \<subseteq> set (tasks (days st ! j))"
      using j by (cases "j = f") (auto simp add: st1_def upd_day_def)
    with r assms(1) j show "r < nextRef st"
      by (auto simp add: refs_allocated_def)
  qed
  define x where "x = \<lparr>task_id = task_id (heap st1 t), description = description (heap st1 t),
                     completed = completed (heap st1 t), popoverOpen = False, isEditing = False,
                     editingText = [], swipeX = 0, isSwipeActive = False,
                     showMoveOptions = False\<rparr>"
  have eq: "moveTask_resume f t to (StatusOk b) st = push_task to x st1"
    using assms(2,3) by (simp add: moveTask_resume_def st1_def [symmetric] x_def len1 Let_def)
  have k1: "k < length (days st1)" using assms(4) by (simp add: len1)
  have "bucket_ids st1 k
          = (if k = f then filter (\<lambda>y. y \<noteq> task_id (heap st t)) (bucket_ids st f)
             else bucket_ids st k)"
    unfolding st1_def by (rule bucket_ids_filter [OF assms(2,4)])
  with assms(5) show ?thesis
    unfolding eq bucket_ids_push [OF ra1 k1] by (auto simp add: x_def heap1)
qed

lemma addTask_resume_buckets:
  assumes "refs_allocated st" and "i < length (days st)" and "k < length (days st)"
  shows "bucket_ids (addTask_resume i desc (StatusOk (Json j)) uuid st) k
         = (if k = i then bucket_ids st i @ [id_or_uuid j uuid] else bucket_ids st k)"
proof -
  define x where "x = \<lparr>task_id = id_or_uuid j uuid, description = desc, completed = False,
                popoverOpen = False, isEditing = False, editingText = [], swipeX = 0,
                isSwipeActive = False, showMoveOptions = False\<rparr>"
  have eq: "addTask_resume i desc (StatusOk (Json j)) uuid st
            = upd_day i (\<lambda>d. d\<lparr>newTaskDescription := []\<rparr>) (push_task i x st)"
    by (simp add: addTask_resume_def x_def)
  have len: "length (days (push_task i x st)) = length (days st)"
    by (simp add: push_task_def upd_day_def Let_def)
  have s: "same_ids (push_task i x st)
             (upd_day i (\<lambda>d. d\<lparr>newTaskDescription := []\<rparr>) (push_task i x st))"
    by (simp add: same_ids_def upd_day_def map_update map_update_same)
  from assms(3) have "k < length (days (push_task i x st))" by (simp add: len)
  with s have "bucket_ids (addTask_resume i desc (StatusOk (Json j)) uuid st) k
               = bucket_ids (push_task i x st) k"
    unfolding eq by (rule same_ids_bucket_ids)
  then show ?thesis
    by (auto simp add: bucket_ids_push [OF assms(1,3)] x_def)
qed

lemma deleteTask_resume_buckets:
  assumes "i < length (days st)" and "k < length (days st)"
  shows "bucket_ids (deleteTask_resume i taskId (StatusOk b) st) k
         = (if k = i then filter (\<lambda>y. y \<noteq> taskId) (bucket_ids st i) else bucket_ids st k)"
proof -
  define st1 where "st1 = upd_day i
      (\<lambda>d. d\<lparr>tasks := filter (\<lambda>r. task_id (heap st r) \<noteq> taskId) (tasks d)\<rparr>) st"
  have eq: "deleteTask_resume i taskId (StatusOk b) st
            = st1\<lparr>taskHoverState := (taskHoverState st)(taskId := None)\<rparr>"
    using assms(1) by (simp add: deleteTask_resume_def st1_def)
  have "bucket_ids (st1\<lparr>taskHoverState := (taskHoverState st)(taskId := None)\<rparr>) k
        = bucket_ids st1 k"
    by (simp add: bucket_ids_def)
  then show ?thesis
    unfolding eq st1_def by (simp add: bucket_ids_filter [OF assms])
qed

subsection \<open>Operations that are issued one after the other\<close>

text \<open>
  An operation whose response arrives before anything else happens is a run of two
  events (of one, when it returns before any request). When the task of a move is in
  its source day at the call, as the markup has it, the run is in order; so is the run
  of a create whose confirmed id is new, and every run of a toggle, a rename or a
  delete.
\<close>

lemma operations_as_runs:
  shows "\<exists>evs. run evs st = addTask dayIndex resp uuid st
           \<and> ((\<forall>i. resp = StatusOk (Json i) \<longrightarrow> id_or_uuid i uuid \<notin> set (all_ids st))
                \<longrightarrow> in_order_run evs st)"
    and "\<exists>evs. run evs st = toggleTask dayIndex taskId resp st \<and> in_order_run evs st"
    and "\<exists>evs. run evs st = saveTaskEdit t resp st \<and> in_order_run evs st"
    and "\<exists>evs. run evs st = deleteTask dayIndex taskId resp st \<and> in_order_run evs st"
    and "\<exists>evs. run evs st = moveTask fromDayIndex t toDayIndex resp st
           \<and> (fromDayIndex < length (days st) \<and> t \<in> set (tasks (days st ! fromDayIndex))
                \<longrightarrow> in_order_run evs st)"
    and "\<exists>evs. run evs st = handleMoveFromSwipe fromDayIndex t toDayIndex resp st
           \<and> (fromDayIndex < length (days st) \<and> t \<in> set (tasks (days st ! fromDayIndex))
                \<longrightarrow> in_order_run evs st)"
proof -
  show "\<exists>evs. run evs st = addTask dayIndex resp uuid st
           \<and> ((\<forall>i. resp = StatusOk (Json i) \<longrightarrow> id_or_uuid i uuid \<notin> set (all_ids st))
                \<longrightarrow> in_order_run evs st)"
  proof (cases "fst (addTask_start dayIndex st)")
    case None
    then have "run [AddTask_call dayIndex] st = addTask dayIndex resp uuid st"
      by (auto simp add: run_def addTask_def split: prod.splits)
    moreover have "in_order_run [AddTask_call dayIndex] st" by simp
    ultimately show ?thesis by blast
  next
    case (Some desc)
    then have "run [AddTask_call dayIndex, AddTask_response dayIndex desc resp uuid] st
               = addTask dayIndex resp uuid st"
      by (auto simp add: run_def addTask_def split: prod.splits)
    moreover have "in_order_run [AddTask_call dayIndex, AddTask_response dayIndex desc resp uuid] st"
      if "\<forall>i. resp = StatusOk (Json i) \<longrightarrow> id_or_uuid i uuid \<notin> set (all_ids st)"
      using that by (auto simp add: all_ids_start split: response.splits body.splits)
    ultimately show ?thesis by blast
  qed
  show "\<exists>evs. run evs st = toggleTask dayIndex taskId resp st \<and> in_order_run evs st"
  proof (cases "fst (toggleTask_start dayIndex taskId st)")
    case None
    then have "run [ToggleTask_call dayIndex taskId] st = toggleTask dayIndex taskId resp st"
      by (auto simp add: run_def toggleTask_def split: prod.splits)
    moreover have "in_order_run [ToggleTask_call dayIndex taskId] st" by simp
    ultimately show ?thesis by blast
  next
    case (Some p)
    then have "run [ToggleTask_call dayIndex taskId, ToggleTask_response (fst p) (snd p) resp] st
               = toggleTask dayIndex taskId resp st"
      by (auto simp add: run_def toggleTask_def split: prod.splits)
    moreover
    have "in_order_run [ToggleTask_call dayIndex taskId, ToggleTask_response (fst p) (snd p) resp] st"
      by simp
    ultimately show ?thesis by blast
  qed
  show "\<exists>evs. run evs st = saveTaskEdit t resp st \<and> in_order_run evs st"
  proof (cases "fst (saveTaskEdit_start t st)")
    case None
    then have "run [SaveTaskEdit_call t] st = saveTaskEdit t resp st"
      by (auto simp add: run_def saveTaskEdit_def split: prod.splits)
    moreover have "in_order_run [SaveTaskEdit_call t] st" by simp
    ultimately show ?thesis by blast
  next
    case (Some newText)
    then have "run [SaveTaskEdit_call t, SaveTaskEdit_response t newText resp] st
               = saveTaskEdit t resp st"
      by (auto simp add: run_def saveTaskEdit_def split: prod.splits)
    moreover have "in_order_run [SaveTaskEdit_call t, SaveTaskEdit_response t newText resp] st"
      by simp
    ultimately show ?thesis by blast
  qed
  show "\<exists>evs. run evs st = deleteTask dayIndex taskId resp st \<and> in_order_run evs st"
  proof -
    have "run [DeleteTask_call taskId, DeleteTask_response dayIndex taskId resp] st
          = deleteTask dayIndex taskId resp st"
      by (simp add: run_def deleteTask_def)
    moreover have "in_order_run [DeleteTask_call taskId, DeleteTask_response dayIndex taskId resp] st"
      by simp
    ultimately show ?thesis by blast
  qed
  have move: "\<exists>evs. run (pre @ evs) st = moveTask fromDayIndex t toDayIndex resp s
                \<and> (fromDayIndex < length (days s) \<and> t \<in> set (tasks (days s ! fromDayIndex))
                     \<longrightarrow> in_order_run evs s)"
    if "run pre st = s" for pre s
  proof (cases "fst (moveTask_start fromDayIndex t toDayIndex s)")
    case False
    then have "run (pre @ [MoveTask_call fromDayIndex t toDayIndex]) st
               = moveTask fromDayIndex t toDayIndex resp s"
      using that by (auto simp add: run_def moveTask_def split: prod.splits)
    moreover have "in_order_run [MoveTask_call fromDayIndex t toDayIndex] s" by simp
    ultimately show ?thesis by blast
  next
    case True
    then have "run (pre @ [MoveTask_call fromDayIndex t toDayIndex,
                           MoveTask_response fromDayIndex t toDayIndex resp]) st
               = moveTask fromDayIndex t toDayIndex resp s"
      using that by (auto simp add: run_def moveTask_def split: prod.splits)
    moreover have "in_order_run [MoveTask_call fromDayIndex t toDayIndex,
                                 MoveTask_response fromDayIndex t toDayIndex resp] s"
      if "fromDayIndex < length (days s) \<and> t \<in> set (tasks (days s ! fromDayIndex))"
      using that by (auto simp add: moveTask_start_def split: response.splits)
    ultimately show ?thesis by blast
  qed
  from move [of "[]" st]
  show "\<exists>evs. run evs st = moveTask fromDayIndex t toDayIndex resp st
           \<and> (fromDayIndex < length (days st) \<and> t \<in> set (tasks (days st ! fromDayIndex))
                \<longrightarrow> in_order_run evs st)"
    by (simp add: run_def)
  have r: "run [ResetTaskSwipe t] st = resetTaskSwipe t st"
    by (simp add: run_def)
  have d: "days (resetTaskSwipe t st) = days st"
    by (simp add: resetTaskSwipe_def upd_task_def)
  from move [OF r] obtain evs where
    evs: "run ([ResetTaskSwipe t] @ evs) st
            = moveTask fromDayIndex t toDayIndex resp (resetTaskSwipe t st)"
      "fromDayIndex < length (days st) \<and> t \<in> set (tasks (days st ! fromDayIndex))
         \<longrightarrow> in_order_run evs (resetTaskSwipe t st)"
    unfolding d by blast
  then have "run (ResetTaskSwipe t # evs) st = handleMoveFromSwipe fromDayIndex t toDayIndex resp st
             \<and> (fromDayIndex < length (days st) \<and> t \<in> set (tasks (days st ! fromDayIndex))
                  \<longrightarrow> in_order_run (ResetTaskSwipe t # evs) st)"
    by (simp add: handleMoveFromSwipe_def)
  then show "\<exists>evs. run evs st = handleMoveFromSwipe fromDayIndex t toDayIndex resp st
           \<and> (fromDayIndex < length (days st) \<and> t \<in> set (tasks (days st ! fromDayIndex))
                \<longrightarrow> in_order_run evs st)"
    by blast
qed

lemma init_state_inv: "refs_allocated init_state" "all_ids init_state = []"
proof -
  have e: "\<forall>d \<in> set (days init_state). tasks d = []"
    by (simp add: init_state_def new_day_def)
  then have n: "tasks (days init_state ! k) = []" if "k < length (days init_state)" for k
    using that by (meson nth_mem)
  then show "refs_allocated init_state" by (simp add: refs_allocated_def)
  from n show "all_ids init_state = []" by (simp add: all_ids_def bucket_ids_def)
qed

lemma upt_8: "[0..<8] = [0, 1, 2, 3, 4, 5, 6, 7]"
  by (simp add: upt_rec)

subsection \<open>The claim\<close>

lemma run_append: "run (evs @ evs') st = run evs' (run evs st)"
  by (simp add: run_def)

lemma in_order_run_append:
  "in_order_run (evs @ evs') st \<longleftrightarrow> in_order_run evs st \<and> in_order_run evs' (run evs st)"
  by (induction evs arbitrary: st) (simp_all add: run_def)

lemma run_evs_created: "run evs_created init_state = s_task"
  by (simp add: run_def evs_created_def s_task_def addTask_def addTask_start_def
        input_newTaskDescription_def store_defs init_state_def trim_def is_space_def js_def)

lemma in_order_run_evs_created: "in_order_run evs_created init_state"
proof -
  have "all_ids (snd (addTask_start 0 (input_newTaskDescription 0 (js ''Call Bob'') init_state)))
        = all_ids (input_newTaskDescription 0 (js ''Call Bob'') init_state)"
    by (rule all_ids_start)
  also have "\<dots> = all_ids init_state"
    by (rule same_ids_all_ids) (rule same_ids_simple)
  finally show ?thesis
    by (simp add: evs_created_def init_state_inv)
qed

lemma run_evs_moved: "run evs_moved init_state = s_moved"
  by (simp add: evs_moved_def run_append run_evs_created)
     (simp add: run_def s_moved_def moveTask_def moveTask_start_def s_task_eq)

lemma s_moved_eq:
  "s_moved =
     \<lparr>heap = (\<lambda>_. blank_task)(0 :=
         \<lparr>task_id = ''42'', description = js ''Call Bob'', completed = False,
          popoverOpen = False, isEditing = False, editingText = [], swipeX = 0,
          isSwipeActive = False, showMoveOptions = False\<rparr>,
         Suc 0 := \<lparr>task_id = ''42'', description = js ''Call Bob'', completed = False,
          popoverOpen = False, isEditing = False, editingText = [], swipeX = 0,
          isSwipeActive = False, showMoveOptions = False\<rparr>),
      nextRef = 2,
      days = [\<lparr>name = ''Monday'', tasks = [], newTaskDescription = [],
               dayBgColor = ''#FFF4E6''\<rparr>,
              \<lparr>name = ''Tuesday'', tasks = [1], newTaskDescription = [],
               dayBgColor = ''#FFE8CC''\<rparr>,
              new_day ''Wednesday'' 2,
              new_day ''Thursday'' 3, new_day ''Friday'' 4, new_day ''Saturday'' 5,
              new_day ''Sunday'' 6, new_day ''Someday'' 7],
      taskHoverState = Map.empty,
      touchStartX = 0, touchStartY = 0, isSwiping = False,
      now = 0, timers = [],
      requests = [POST_tasks (js ''Call Bob'') ''Monday'', PUT_day ''42'' ''Tuesday'']\<rparr>"
  by (simp add: s_moved_def s_task_eq moveTask_def moveTask_start_def moveTask_resume_def
        store_defs new_day_def warmGradient_def)

lemma in_order_run_evs_moved: "in_order_run evs_moved init_state"
  by (simp add: evs_moved_def in_order_run_append in_order_run_evs_created run_evs_created)
     (simp add: moveTask_start_def s_task_eq)

text \<open>
  Claim C1 as it is stated fails when two moves of one task are in flight together.
  Task 42 is created on Monday. A move to Tuesday and a move to Wednesday are both
  called while the task is on Monday (the row stays where it is until a response
  arrives), and both are confirmed. The first response moves the task to Tuesday; the
  second finds nothing to remove on Monday and appends a copy to Wednesday. Every
  operation of the run is confirmed, and at its end the id 42 is in two buckets.
\<close>

theorem overlapping_moves_counterexample:
  "requests (run evs_overlap init_state)
     = [POST_tasks (js ''Call Bob'') ''Monday'', PUT_day ''42'' ''Tuesday'',
        PUT_day ''42'' ''Wednesday'']
   \<and> map (bucket_ids (run evs_overlap init_state)) [0, 1, 2] = [[], [''42''], [''42'']]
   \<and> all_ids (run evs_overlap init_state) = [''42'', ''42'']
   \<and> \<not> distinct (all_ids (run evs_overlap init_state))
   \<and> \<not> in_order_run evs_overlap init_state"
proof -
  have r: "run evs_overlap init_state
           = moveTask_resume 0 0 2 (StatusOk BadJson)
               (moveTask_resume 0 0 1 (StatusOk BadJson)
                  (snd (moveTask_start 0 0 2 (snd (moveTask_start 0 0 1 s_task)))))"
    by (simp add: evs_overlap_def run_append run_evs_created) (simp add: run_def)
  have a: "requests (run evs_overlap init_state)
     = [POST_tasks (js ''Call Bob'') ''Monday'', PUT_day ''42'' ''Tuesday'',
        PUT_day ''42'' ''Wednesday'']"
    "map (bucket_ids (run evs_overlap init_state)) [0, 1, 2] = [[], [''42''], [''42'']]"
    "all_ids (run evs_overlap init_state) = [''42'', ''42'']"
    unfolding r
    by (simp_all add: s_task_eq moveTask_start_def moveTask_resume_def store_defs
          all_ids_def bucket_ids_def new_day_def upt_8)
  have "\<not> in_order_run evs_overlap init_state"
    by (simp add: evs_overlap_def in_order_run_append run_evs_created)
       (simp add: s_task_eq moveTask_start_def moveTask_resume_def store_defs new_day_def)
  with a show ?thesis by simp
qed

text \<open>
  Claim C1, as the code has it. Take a state in which every task id occurs once on the
  whole board (and the references of the days are allocated); the state after the
  script block has run is one. Along every run of events from it, of any kind, in any
  order, with responses that succeed or fail, in which the events arrive in order,
  that is:
  \<^item> a confirmed create, and a confirmed load of a day, bring ids that are new to the
    board, as ids that the Remote Store issues are;
  \<^item> a task is still in its source day when its move is confirmed, as it is when the
    operations on one task are issued one after the other;

  the state at the end has these properties:
  \<^item> no id occurs twice in the concatenation of the buckets' id lists, so no task is
    duplicated within a bucket or across buckets;
  \<^item> every id on the board is in the bucket of exactly one day index;
  \<^item> a confirmed create appends the new id to the bucket of the day it was made for,
    a confirmed delete removes the id from the bucket of its day, and a confirmed move
    to another day of a task that is in its source day takes the id out of the source
    bucket and appends it to the destination bucket; each leaves the other buckets as
    they are. So no task is lost, and the bucket that holds a task is the one that the
    confirmed operations put it in.
\<close>

theorem task_in_exactly_one_bucket:
  assumes "in_order_run evs st0" and "refs_allocated st0" and "distinct (all_ids st0)"
  shows
    "(let st = run evs st0
      in distinct (all_ids st)
       \<and> (\<forall>i < length (days st). distinct (bucket_ids st i))
       \<and> (\<forall>x \<in> set (all_ids st). \<exists>!i. i < length (days st) \<and> x \<in> set (bucket_ids st i))
       \<and> (\<forall>i desc j uuid k.
             i < length (days st) \<and> k < length (days st) \<longrightarrow>
             bucket_ids (addTask_resume i desc (StatusOk (Json j)) uuid st) k
               = (if k = i then bucket_ids st i @ [id_or_uuid j uuid] else bucket_ids st k))
       \<and> (\<forall>i taskId b k.
             i < length (days st) \<and> k < length (days st) \<longrightarrow>
             bucket_ids (deleteTask_resume i taskId (StatusOk b) st) k
               = (if k = i then filter (\<lambda>y. y \<noteq> taskId) (bucket_ids st i)
                  else bucket_ids st k))
       \<and> (\<forall>f t to b k.
             f < length (days st) \<and> to < length (days st) \<and> k < length (days st) \<and> to \<noteq> f
             \<and> t \<in> set (tasks (days st ! f)) \<longrightarrow>
             bucket_ids (moveTask_resume f t to (StatusOk b) st) k
               = (if k = to then bucket_ids st to @ [task_id (heap st t)]
                  else if k = f
                    then filter (\<lambda>y. y \<noteq> task_id (heap st t)) (bucket_ids st f)
                  else bucket_ids st k)))"
proof -
  define st where "st = run evs st0"
  from assms have inv: "refs_allocated st \<and> ids_unique st"
    unfolding st_def by (simp add: run_inv distinct_all_ids)
  then have 1: "distinct (all_ids st)" by (simp add: distinct_all_ids)
  from inv have 2: "\<forall>i < length (days st). distinct (bucket_ids st i)"
    by (simp add: ids_unique_def)
  have 3: "\<forall>x \<in> set (all_ids st). \<exists>!i. i < length (days st) \<and> x \<in> set (bucket_ids st i)"
  proof
    fix x assume "x \<in> set (all_ids st)"
    with inv show "\<exists>!i. i < length (days st) \<and> x \<in> set (bucket_ids st i)"
      by (simp add: exactly_one_bucket)
  qed
  from inv have 4: "\<forall>i desc j uuid k.
             i < length (days st) \<and> k < length (days st) \<longrightarrow>
             bucket_ids (addTask_resume i desc (StatusOk (Json j)) uuid st) k
               = (if k = i then bucket_ids st i @ [id_or_uuid j uuid] else bucket_ids st k)"
    by (intro allI impI addTask_resume_buckets) simp_all
  have 5: "\<forall>i taskId b k.
             i < length (days st) \<and> k < length (days st) \<longrightarrow>
             bucket_ids (deleteTask_resume i taskId (StatusOk b) st) k
               = (if k = i then filter (\<lambda>y. y \<noteq> taskId) (bucket_ids st i)
                  else bucket_ids st k)"
    by (intro allI impI deleteTask_resume_buckets) simp_all
  from inv have 6: "\<forall>f t to b k.
             f < length (days st) \<and> to < length (days st) \<and> k < length (days st) \<and> to \<noteq> f
             \<and> t \<in> set (tasks (days st ! f)) \<longrightarrow>
             bucket_ids (moveTask_resume f t to (StatusOk b) st) k
               = (if k = to then bucket_ids st to @ [task_id (heap st t)]
                  else if k = f
                    then filter (\<lambda>y. y \<noteq> task_id (heap st t)) (bucket_ids st f)
                  else bucket_ids st k)"
    by (intro allI impI moveTask_resume_buckets) simp_all
  from 1 2 3 4 5 6 show ?thesis
    unfolding st_def [symmetric] Let_def by blast
qed

text \<open>
  The theorem on the run that creates ``Call Bob'' on Monday with the id 42 and moves
  it to Tuesday, the move confirmed before anything else happens: the run is in order
  from the initial state, and at its end the id 42 is in Tuesday's bucket and nowhere
  else.
\<close>

theorem task_in_exactly_one_bucket_witness:
  "in_order_run evs_moved init_state \<and> refs_allocated init_state
   \<and> distinct (all_ids init_state)
   \<and> all_ids (run evs_moved init_state) = [''42'']
   \<and> distinct (all_ids (run evs_moved init_state))
   \<and> bucket_ids (run evs_moved init_state) 0 = []
   \<and> bucket_ids (run evs_moved init_state) 1 = [''42'']
   \<and> (\<exists>!i. i < length (days (run evs_moved init_state))
            \<and> ''42'' \<in> set (bucket_ids (run evs_moved init_state) i))"
proof -
  have ids: "all_ids s_moved = [''42'']" "bucket_ids s_moved 0 = []"
    "bucket_ids s_moved 1 = [''42'']"
    by (simp_all add: all_ids_def bucket_ids_def s_moved_eq new_day_def upt_8)
  have h: "in_order_run evs_moved init_state" "refs_allocated init_state"
    "distinct (all_ids init_state)"
    by (simp_all add: in_order_run_evs_moved init_state_inv)
  from task_in_exactly_one_bucket [OF h] h ids show ?thesis
    by (simp add: Let_def run_evs_moved)
qed

end
